theory Spec2Isabelle
  imports Complex_Main "HOL-Library.Word" "HOL-Library.Log_Nat"
begin

section \<open>CRT standby generator: the effects pipeline of crt\_generator.py\<close>

text \<open>
  The program renders 48 frames of a "connecting" screen and sends each through a
  chain of image transforms. Frames are Pillow RGB images, which the code converts
  to and from NumPy arrays of shape (h, w, 3) and element type uint8.

  The embedding keeps that data: a frame is a list of rows, a row a list of pixels,
  a pixel three 8-bit words. NumPy's float32 and float64 arithmetic is modelled on
  the rationals by rounding every result to the nearest representable value
  (ties to even); the random generators are explicit streams of draws; a Python
  exception is a value of type \<open>error\<close>.
\<close>

subsection \<open>Binary floating point as rounded rationals\<close>

text \<open>
  A finite float is the rational it denotes. An operation of the source on floats is
  the exact operation followed by \<open>fl_round p emin\<close>, the rounding to \<open>p\<close> significant
  bits with least normal exponent \<open>emin\<close> (gradual underflow below it). Overflow to
  infinity is outside the model: every quantity of the pipeline that is rounded is
  bounded by the frame size or by 255. NaN has no representative; the one place
  where the source produces it (a division 0/0 in \<open>barrel_distort\<close>) is an explicit
  error of the model.
\<close>

definition pow2 :: "int \<Rightarrow> rat" where
  "pow2 k = (if 0 \<le> k then 2 ^ nat k else 1 / 2 ^ nat (- k))"

definition round_half_even :: "rat \<Rightarrow> int" where
  "round_half_even x =
     (let f = \<lfloor>x\<rfloor>; d = x - of_int f
      in if d < 1 / 2 then f else if 1 / 2 < d then f + 1 else if even f then f else f + 1)"

text \<open>\<open>ilog2 x\<close> is the binary exponent of a positive rational: \<open>2 ^ e \<le> x < 2 ^ (e + 1)\<close>.\<close>

definition ilog2 :: "rat \<Rightarrow> int" where
  "ilog2 x = (if 1 \<le> x then bitlen \<lfloor>x\<rfloor> - 1 else - bitlen (\<lceil>1 / x\<rceil> - 1))"

definition fl_round :: "nat \<Rightarrow> int \<Rightarrow> rat \<Rightarrow> rat" where
  "fl_round p emin x =
     (if x = 0 then 0
      else let e = max (ilog2 \<bar>x\<bar>) emin; u = pow2 (e - int p + 1)
           in of_int (round_half_even (x / u)) * u)"

definition f32 :: "rat \<Rightarrow> rat" where
  "f32 = fl_round 24 (- 126)"

definition f64 :: "rat \<Rightarrow> rat" where
  "f64 = fl_round 53 (- 1022)"

text \<open>Python's \<open>int(x)\<close> on a float and NumPy's cast to an integer type truncate towards zero.\<close>

definition py_int :: "rat \<Rightarrow> int" where
  "py_int x = (if 0 \<le> x then \<lfloor>x\<rfloor> else - \<lfloor>- x\<rfloor>)"

definition clipf :: "rat \<Rightarrow> rat \<Rightarrow> rat \<Rightarrow> rat" where
  "clipf x lo hi = min (max x lo) hi"

subsection \<open>Configuration constants\<close>

text \<open>A float literal of the source is the float64 nearest to its decimal value.\<close>

definition TEXT_LINES :: "string list" where
  "TEXT_LINES = [''Connecting'' @ [CHR 0xE2, CHR 0x80, CHR 0xA6], ''Broadcast will start momentarily'']"

definition FRAMES :: nat where "FRAMES = 48"
definition FPS :: nat where "FPS = 12"
definition DURATION_MS :: int where "DURATION_MS = py_int (f64 (1000 / of_nat FPS))"

definition SCANLINE_OPACITY :: rat where "SCANLINE_OPACITY = f64 (22 / 100)"
definition BLOOM_RADIUS :: rat where "BLOOM_RADIUS = f64 (5 / 2)"
definition BLOOM_GAIN :: rat where "BLOOM_GAIN = f64 (3 / 4)"
definition VIGNETTE_STRENGTH :: rat where "VIGNETTE_STRENGTH = f64 (35 / 100)"
definition NOISE_STRENGTH :: rat where "NOISE_STRENGTH = f64 (6 / 100)"
definition TEAR_PROB :: rat where "TEAR_PROB = f64 (1 / 2)"
definition TEAR_BANDS :: "int \<times> int" where "TEAR_BANDS = (1, 3)"
definition TEAR_SHIFT_PX :: int where "TEAR_SHIFT_PX = 16"
definition CHROMA_GLITCH_FRAMES :: "nat set" where "CHROMA_GLITCH_FRAMES = {0, 1}"
definition CHROMA_SHIFT_PX :: int where "CHROMA_SHIFT_PX = 1"
definition CURVATURE_K :: rat where "CURVATURE_K = f64 (8 / 100)"
definition FLICKER_MIN :: rat where "FLICKER_MIN = f64 (95 / 100)"
definition FLICKER_MAX :: rat where "FLICKER_MAX = f64 (105 / 100)"
definition CRT_BG_STRENGTH :: rat where "CRT_BG_STRENGTH = f64 (18 / 100)"
definition CRT_BG_TINT :: "nat \<times> nat \<times> nat" where "CRT_BG_TINT = (0, 140, 40)"

subsection \<open>Frames\<close>

type_synonym u8 = "8 word"
type_synonym pixel = "u8 \<times> u8 \<times> u8"
type_synonym 'a plane = "'a list list"
type_synonym frame = "pixel plane"

definition red :: "pixel \<Rightarrow> u8" where "red p = fst p"
definition green :: "pixel \<Rightarrow> u8" where "green p = fst (snd p)"
definition blue :: "pixel \<Rightarrow> u8" where "blue p = snd (snd p)"

definition GREEN :: pixel where "GREEN = (0, 255, 120)"
definition BG :: pixel where "BG = (0, 0, 0)"

definition px_map :: "(u8 \<Rightarrow> u8) \<Rightarrow> pixel \<Rightarrow> pixel" where
  "px_map f p = (f (red p), f (green p), f (blue p))"

definition px_map2 :: "(u8 \<Rightarrow> u8 \<Rightarrow> u8) \<Rightarrow> pixel \<Rightarrow> pixel \<Rightarrow> pixel" where
  "px_map2 f p q = (f (red p) (red q), f (green p) (green q), f (blue p) (blue q))"

text \<open>\<open>imap f xs\<close> visits the elements of \<open>xs\<close> with their indices.\<close>

definition imap :: "(nat \<Rightarrow> 'a \<Rightarrow> 'b) \<Rightarrow> 'a list \<Rightarrow> 'b list" where
  "imap f xs = map (\<lambda>i. f i (xs ! i)) [0..<length xs]"

text \<open>\<open>img.size\<close> is \<open>(size_w img, size_h img)\<close>. An array is rectangular: \<open>rect\<close>.\<close>

definition size_h :: "'a plane \<Rightarrow> nat" where
  "size_h img = length img"

definition size_w :: "'a plane \<Rightarrow> nat" where
  "size_w img = (case img of [] \<Rightarrow> 0 | r # _ \<Rightarrow> length r)"

definition rect :: "'a plane \<Rightarrow> bool" where
  "rect img = list_all (\<lambda>r. length r = size_w img) img"

text \<open>\<open>same_dims a b\<close>: equally many rows, and row by row equally many pixels.\<close>

definition same_dims :: "'a plane \<Rightarrow> 'b plane \<Rightarrow> bool" where
  "same_dims a b = (map length a = map length b)"

text \<open>\<open>keeps_dims out img\<close>: \<open>out\<close> is an array of the width and the height of \<open>img\<close>.\<close>

definition keeps_dims :: "'a plane \<Rightarrow> 'b plane \<Rightarrow> bool" where
  "keeps_dims out img = (size_w out = size_w img \<and> size_h out = size_h img \<and> rect out)"

subsection \<open>Exceptions and random draws\<close>

text \<open>
  \<open>ValueError\<close> is what \<open>random.randint\<close> raises on an empty range and what NumPy's
  \<open>max\<close> raises on an empty array. \<open>NanIndex\<close> stands for a NaN that reaches a cast to
  int32 and is used as an array index: the cast is platform dependent, so the model
  stops there.
\<close>

datatype error = ValueError | NanIndex

text \<open>
  A generator is the stream of its future draws. Each call of the source consumes one
  draw and maps it into the range it asks for; every value of the range is reached by
  some draw. Python's \<open>random\<close> module and \<open>numpy.random\<close> own separate generators.
\<close>

type_synonym rng = "nat \<Rightarrow> nat"

definition rng_tail :: "rng \<Rightarrow> rng" where
  "rng_tail g = (\<lambda>n. g (Suc n))"

definition randint :: "int \<Rightarrow> int \<Rightarrow> rng \<Rightarrow> error + (int \<times> rng)" where
  "randint a b g =
     (if b < a then Inl ValueError
      else Inr (a + int (g 0) mod (b - a + 1), rng_tail g))"

text \<open>\<open>random.random()\<close>: a multiple of \<open>2 ^ -53\<close> in \<open>[0, 1)\<close>.\<close>

definition random_random :: "rng \<Rightarrow> rat \<times> rng" where
  "random_random g = (of_nat (g 0 mod 2 ^ 53) / 2 ^ 53, rng_tail g)"

text \<open>\<open>random.uniform(a, b)\<close> is \<open>a + (b - a) * random()\<close> in float64.\<close>

definition random_uniform :: "rat \<Rightarrow> rat \<Rightarrow> rng \<Rightarrow> rat \<times> rng" where
  "random_uniform a b g =
     (case random_random g of (u, g') \<Rightarrow> (f64 (a + f64 (f64 (b - a) * u)), g'))"

text \<open>
  \<open>numpy.random.uniform(low, high)\<close> for the draw \<open>k\<close>: \<open>low + (high - low) * u\<close> in
  float64, with \<open>u\<close> a multiple of \<open>2 ^ -53\<close> in \<open>[0, 1)\<close>.
\<close>

definition np_uniform :: "rat \<Rightarrow> rat \<Rightarrow> nat \<Rightarrow> rat" where
  "np_uniform low high k = f64 (low + f64 (f64 (high - low) * (of_nat (k mod 2 ^ 53) / 2 ^ 53)))"

text \<open>The generator whose every draw is \<open>k\<close>, for running the model on a concrete input.\<close>

definition rng_const :: "nat \<Rightarrow> rng" where
  "rng_const k = (\<lambda>n. k)"

definition bind_err :: "error + 'a \<Rightarrow> ('a \<Rightarrow> error + 'b) \<Rightarrow> error + 'b" where
  "bind_err m f = (case m of Inl e \<Rightarrow> Inl e | Inr x \<Rightarrow> f x)"

subsection \<open>Pillow primitives used by the stages\<close>

text \<open>
  \<open>ImageChops.offset(image, xoffset, yoffset)\<close> moves the data by the given distances
  and wraps it around the edges: the output at \<open>(y, x)\<close> is the input at
  \<open>((y - yoffset) mod h, (x - xoffset) mod w)\<close>.
\<close>

definition offset_row :: "int \<Rightarrow> 'a list \<Rightarrow> 'a list" where
  "offset_row xoffset row =
     map (\<lambda>x. row ! nat ((int x - xoffset) mod int (length row))) [0..<length row]"

definition chops_offset :: "'a plane \<Rightarrow> int \<Rightarrow> int \<Rightarrow> 'a plane" where
  "chops_offset im xoffset yoffset =
     map (\<lambda>y. offset_row xoffset (im ! nat ((int y - yoffset) mod int (length im))))
       [0..<length im]"

text \<open>\<open>img.split()\<close> and \<open>Image.merge("RGB", (r, g, b))\<close>.\<close>

definition split_rgb :: "frame \<Rightarrow> u8 plane \<times> u8 plane \<times> u8 plane" where
  "split_rgb img = (map (map red) img, map (map green) img, map (map blue) img)"

definition merge_rgb :: "u8 plane \<Rightarrow> u8 plane \<Rightarrow> u8 plane \<Rightarrow> frame" where
  "merge_rgb r g b = map (\<lambda>(rr, gr, br). zip rr (zip gr br)) (zip r (zip g b))"

text \<open>
  \<open>base.crop((0, ty, w, ty + th))\<close> takes the full-width strip of rows \<open>ty ..< ty + th\<close>;
  \<open>base.paste(band, (0, ty))\<close> writes a full-width strip back over the rows from \<open>ty\<close> on.
\<close>

definition crop_rows :: "'a plane \<Rightarrow> nat \<Rightarrow> nat \<Rightarrow> 'a plane" where
  "crop_rows base ty th = take th (drop ty base)"

definition paste_rows :: "'a plane \<Rightarrow> 'a plane \<Rightarrow> nat \<Rightarrow> 'a plane" where
  "paste_rows base band ty =
     take ty base @ take (length base - ty) band @ drop (ty + length band) base"

subsection \<open>Stages that move pixels\<close>

definition chroma_shift :: "frame \<Rightarrow> int \<Rightarrow> frame" where
  "chroma_shift img shift_px =
     (if shift_px \<le> 0 then img
      else case split_rgb img of
        (r, g, b) \<Rightarrow> merge_rgb (chops_offset r (- shift_px) 0) g (chops_offset b shift_px 0))"

text \<open>One pass of the loop body of \<open>tearing\<close>; \<open>h\<close> is the height read before the loop.\<close>

definition tear_band :: "int \<Rightarrow> int \<Rightarrow> frame \<Rightarrow> rng \<Rightarrow> error + (frame \<times> rng)" where
  "tear_band h max_shift base g =
     (case randint 4 (max 6 (py_int (f64 (f64 (of_int h) * f64 (6 / 100))))) g of
        Inl e \<Rightarrow> Inl e
      | Inr (th, g1) \<Rightarrow>
          (case randint 0 (h - th) g1 of
             Inl e \<Rightarrow> Inl e
           | Inr (ty, g2) \<Rightarrow>
               (case randint (- max_shift) max_shift g2 of
                  Inl e \<Rightarrow> Inl e
                | Inr (shift, g3) \<Rightarrow>
                    Inr (paste_rows base
                           (chops_offset (crop_rows base (nat ty) (nat th)) shift 0)
                           (nat ty), g3))))"

fun tear_loop :: "nat \<Rightarrow> int \<Rightarrow> int \<Rightarrow> frame \<Rightarrow> rng \<Rightarrow> error + (frame \<times> rng)" where
  "tear_loop 0 h max_shift base g = Inr (base, g)"
| "tear_loop (Suc n) h max_shift base g =
     (case tear_band h max_shift base g of
        Inl e \<Rightarrow> Inl e
      | Inr (base', g') \<Rightarrow> tear_loop n h max_shift base' g')"

definition tearing :: "frame \<Rightarrow> int \<Rightarrow> int \<times> int \<Rightarrow> rng \<Rightarrow> error + (frame \<times> rng)" where
  "tearing img max_shift bands g =
     (if max_shift \<le> 0 then Inr (img, g)
      else case randint (fst bands) (snd bands) g of
        Inl e \<Rightarrow> Inl e
      | Inr (n, g1) \<Rightarrow> tear_loop (nat n) (int (size_h img)) max_shift img g1)"

text \<open>
  \<open>barrel_distort\<close>: the source coordinates of the output pixel \<open>(yy, xx)\<close>, every
  operation in float64 except the last cast to float32, then \<open>rint\<close>, \<open>clip\<close> and the
  cast to int32.
\<close>

definition barrel_axis :: "rat \<Rightarrow> nat \<Rightarrow> rat" where
  "barrel_axis c i = f64 (f64 (of_nat i - c) / c)"

definition barrel_nn :: "rat \<Rightarrow> rat \<Rightarrow> rat \<Rightarrow> nat \<Rightarrow> nat" where
  "barrel_nn d factor c n =
     nat (py_int (clipf (of_int (round_half_even (f32 (f64 (f64 (f64 (d / factor) * c) + c)))))
                    0 (of_int (int n - 1))))"

definition barrel_src :: "rat \<Rightarrow> nat \<Rightarrow> nat \<Rightarrow> nat \<Rightarrow> nat \<Rightarrow> nat \<times> nat" where
  "barrel_src k w h yy xx =
     (let cx = f64 (of_int (int w - 1) / 2);
          cy = f64 (of_int (int h - 1) / 2);
          x = barrel_axis cx xx;
          y = barrel_axis cy yy;
          r2 = f64 (f64 (x * x) + f64 (y * y));
          factor = f64 (1 + f64 (k * r2))
      in (barrel_nn y factor cy h, barrel_nn x factor cx w))"

definition barrel_distort :: "frame \<Rightarrow> rat \<Rightarrow> error + frame" where
  "barrel_distort img k =
     (if k \<le> 0 then Inr img
      else let w = size_w img; h = size_h img
           in if 0 < w \<and> 0 < h \<and> (w = 1 \<or> h = 1) then Inl NanIndex
              else Inr (map (\<lambda>yy. map (\<lambda>xx. case barrel_src k w h yy xx of
                                               (ys, xs) \<Rightarrow> img ! ys ! xs) [0..<w]) [0..<h]))"

subsection \<open>The float stages\<close>

text \<open>
  \<open>np.array(img).astype(np.float32) / 255.0\<close> on one channel, and the way back,
  \<open>(arr * 255).astype(np.uint8)\<close> after \<open>np.clip(arr, 0, 1)\<close>. The cast to uint8 truncates;
  outside 0..255 it would wrap around, which \<open>to_u8\<close> writes out.
\<close>

definition to_f32 :: "u8 \<Rightarrow> rat" where
  "to_f32 v = f32 (of_nat (unat v) / 255)"

definition to_u8 :: "rat \<Rightarrow> u8" where
  "to_u8 x = word_of_int (py_int x)"

definition clip_scale :: "rat \<Rightarrow> rat" where
  "clip_scale a = f32 (clipf a 0 1 * 255)"

text \<open>\<open>apply_scanlines\<close>: the mask is 1 on even rows and float32 \<open>1.0 - opacity\<close> on odd rows.\<close>

definition scan_mask :: "rat \<Rightarrow> nat \<Rightarrow> rat" where
  "scan_mask opacity y = (if odd y then f32 (f64 (1 - opacity)) else 1)"

definition scan_val :: "rat \<Rightarrow> u8 \<Rightarrow> rat" where
  "scan_val m v = clip_scale (f32 (to_f32 v * m))"

definition scan_chan :: "rat \<Rightarrow> nat \<Rightarrow> u8 \<Rightarrow> u8" where
  "scan_chan opacity y v = to_u8 (scan_val (scan_mask opacity y) v)"

text \<open>
  The way of a channel value \<open>n\<close> through an even row: \<open>n / 255.0\<close>, times the mask 1,
  clipped, times 255, truncated.
\<close>

definition f32_roundtrip :: "nat \<Rightarrow> int" where
  "f32_roundtrip n = py_int (clip_scale (f32 (f32 (of_nat n / 255) * 1)))"

definition apply_scanlines :: "frame \<Rightarrow> rat \<Rightarrow> frame" where
  "apply_scanlines img opacity = imap (\<lambda>y row. map (px_map (scan_chan opacity y)) row) img"

text \<open>
  The functions of the platform that the program calls and that are no arithmetic of
  IEEE 754: NumPy's \<open>sqrt\<close> and \<open>**\<close> with a fractional exponent on float64, Pillow's
  Gaussian blur, and Pillow's font metrics and text rasteriser for the font that
  \<open>load_font\<close> found. They are parameters of the model.
\<close>

record lib =
  np_sqrt :: "rat \<Rightarrow> rat"
  np_power :: "rat \<Rightarrow> rat \<Rightarrow> rat"
  gaussian_blur :: "rat \<Rightarrow> frame \<Rightarrow> frame"
  textbbox :: "nat \<Rightarrow> string \<Rightarrow> int \<times> int \<times> int \<times> int"
  draw_text :: "nat \<Rightarrow> frame \<Rightarrow> int \<times> int \<Rightarrow> string \<Rightarrow> pixel \<Rightarrow> frame"

text \<open>
  \<open>r = np.sqrt((x - cx) ** 2 + (y - cy) ** 2)\<close> with \<open>cx, cy = w / 2, h / 2\<close>, then
  \<open>r /= r.max()\<close>, as \<open>vignette\<close> and \<open>crt_background\<close> both compute it. \<open>r.max()\<close> raises
  ValueError on an array without elements.
\<close>

definition radial :: "lib \<Rightarrow> nat \<Rightarrow> nat \<Rightarrow> nat \<Rightarrow> nat \<Rightarrow> rat" where
  "radial L w h y x =
     (let dx = f64 (of_nat x - f64 (of_nat w / 2));
          dy = f64 (of_nat y - f64 (of_nat h / 2))
      in np_sqrt L (f64 (f64 (dx * dx) + f64 (dy * dy))))"

definition radius_max :: "lib \<Rightarrow> nat \<Rightarrow> nat \<Rightarrow> error + rat" where
  "radius_max L w h =
     (case concat (map (\<lambda>y. map (\<lambda>x. radial L w h y x) [0..<w]) [0..<h]) of
        [] \<Rightarrow> Inl ValueError
      | r # rs \<Rightarrow> Inr (fold max rs r))"

definition norm_radius :: "lib \<Rightarrow> nat \<Rightarrow> nat \<Rightarrow> rat \<Rightarrow> nat \<Rightarrow> nat \<Rightarrow> rat" where
  "norm_radius L w h rmax y x = f64 (radial L w h y x / rmax)"

text \<open>
  \<open>vignette\<close>: the mask is float64, the in-place product \<open>arr *= mask\<close> is computed in
  float64 and stored as float32.
\<close>

definition vig_mask :: "lib \<Rightarrow> rat \<Rightarrow> rat \<Rightarrow> rat" where
  "vig_mask L strength r = f64 (1 - f64 (strength * np_power L r (3 / 2)))"

definition vig_val :: "rat \<Rightarrow> u8 \<Rightarrow> rat" where
  "vig_val m v = clip_scale (f32 (f64 (to_f32 v * m)))"

definition vignette :: "lib \<Rightarrow> frame \<Rightarrow> rat \<Rightarrow> error + frame" where
  "vignette L img strength =
     (let w = size_w img; h = size_h img
      in bind_err (radius_max L w h) (\<lambda>rmax.
           Inr (imap (\<lambda>y row. imap (\<lambda>x p.
                  px_map (\<lambda>v. to_u8 (vig_val (vig_mask L strength (norm_radius L w h rmax y x)) v)) p)
                  row) img)))"

text \<open>
  \<open>add_noise\<close>: one draw of NumPy's generator per channel, in the order of the array
  (row, column, channel); the noise is cast to float32 and added in float32.
\<close>

definition noise_val :: "rat \<Rightarrow> u8 \<Rightarrow> rat" where
  "noise_val n v = clip_scale (f32 (to_f32 v + n))"

definition noise_at :: "rat \<Rightarrow> rng \<Rightarrow> nat \<Rightarrow> rat" where
  "noise_at strength gn i = f32 (np_uniform (- strength) strength (gn i))"

definition add_noise :: "frame \<Rightarrow> rat \<Rightarrow> rng \<Rightarrow> frame \<times> rng" where
  "add_noise img strength gn =
     (let w = size_w img; h = size_h img
      in (imap (\<lambda>y row. imap (\<lambda>x p.
            (to_u8 (noise_val (noise_at strength gn (3 * (y * w + x))) (red p)),
             to_u8 (noise_val (noise_at strength gn (3 * (y * w + x) + 1)) (green p)),
             to_u8 (noise_val (noise_at strength gn (3 * (y * w + x) + 2)) (blue p))))
            row) img,
          \<lambda>n. gn (n + 3 * (h * w))))"

text \<open>\<open>flicker\<close>: one factor per frame; \<open>arr * factor\<close> is a float32 product.\<close>

definition flicker_val :: "rat \<Rightarrow> u8 \<Rightarrow> rat" where
  "flicker_val factor v = clip_scale (f32 (to_f32 v * f32 factor))"

definition flicker :: "frame \<Rightarrow> rat \<Rightarrow> rat \<Rightarrow> rng \<Rightarrow> frame \<times> rng" where
  "flicker img low high g =
     (case random_uniform low high g of
        (factor, g') \<Rightarrow> (map (map (px_map (\<lambda>v. to_u8 (flicker_val factor v)))) img, g'))"

text \<open>
  \<open>Image.blend(im1, im2, alpha)\<close> raises ValueError unless both images have the same
  size. It returns a copy of \<open>im1\<close> for \<open>alpha = 0\<close> and of \<open>im2\<close> for \<open>alpha = 1\<close>, and
  otherwise computes \<open>in1 + alpha * (in2 - in1)\<close> in single precision: truncated for
  \<open>alpha\<close> between 0 and 1, clamped to 0..255 and truncated for any other \<open>alpha\<close>.
\<close>

definition blend_val :: "rat \<Rightarrow> u8 \<Rightarrow> u8 \<Rightarrow> rat" where
  "blend_val alpha a b =
     f32 (of_int (uint a) + f32 (f32 alpha * of_int (uint b - uint a)))"

definition blend_chan :: "rat \<Rightarrow> u8 \<Rightarrow> u8 \<Rightarrow> u8" where
  "blend_chan alpha a b =
     (if f32 alpha = 0 then a
      else if f32 alpha = 1 then b
      else if 0 \<le> f32 alpha \<and> f32 alpha \<le> 1 then to_u8 (blend_val alpha a b)
      else to_u8 (clipf (blend_val alpha a b) 0 255))"

definition image_blend :: "frame \<Rightarrow> frame \<Rightarrow> rat \<Rightarrow> error + frame" where
  "image_blend im1 im2 alpha =
     (if same_dims im1 im2
      then Inr (map (\<lambda>(r1, r2). map (\<lambda>(p, q). px_map2 (blend_chan alpha) p q) (zip r1 r2)) (zip im1 im2))
      else Inl ValueError)"

definition add_bloom_simple :: "lib \<Rightarrow> frame \<Rightarrow> rat \<Rightarrow> rat \<Rightarrow> error + frame" where
  "add_bloom_simple L base radius gain = image_blend base (gaussian_blur L radius base) gain"

subsection \<open>The background\<close>

text \<open>\<open>ImageChops.add(image1, image2)\<close> with scale 1 and offset 0: the sum, clipped at 255.\<close>

definition chops_add_chan :: "u8 \<Rightarrow> u8 \<Rightarrow> u8" where
  "chops_add_chan a b = (if 255 < unat a + unat b then 255 else a + b)"

definition chops_add :: "frame \<Rightarrow> frame \<Rightarrow> frame" where
  "chops_add im1 im2 =
     map (\<lambda>(r1, r2). map (\<lambda>(p, q). px_map2 chops_add_chan p q) (zip r1 r2)) (zip im1 im2)"

definition image_new :: "nat \<Rightarrow> nat \<Rightarrow> pixel \<Rightarrow> frame" where
  "image_new w h colour = replicate h (replicate w colour)"

definition glow_mask :: "lib \<Rightarrow> rat \<Rightarrow> rat \<Rightarrow> rat" where
  "glow_mask L strength r = f64 (f64 (1 - np_power L r (f64 (18 / 10))) * strength)"

definition glow_val :: "nat \<Rightarrow> rat \<Rightarrow> rat" where
  "glow_val tint_c m = clip_scale (f32 (f64 (f64 (of_nat tint_c / 255) * m)))"

definition crt_background :: "lib \<Rightarrow> nat \<times> nat \<Rightarrow> nat \<times> nat \<times> nat \<Rightarrow> rat \<Rightarrow> error + frame" where
  "crt_background L sz tint strength =
     (case sz of (w, h) \<Rightarrow> case tint of (tr, tg, tb) \<Rightarrow>
        bind_err (radius_max L w h) (\<lambda>rmax.
          Inr (chops_add (image_new w h BG)
                 (map (\<lambda>y. map (\<lambda>x.
                    let m = glow_mask L strength (norm_radius L w h rmax y x)
                    in (to_u8 (glow_val tr m), to_u8 (glow_val tg m), to_u8 (glow_val tb m)))
                    [0..<w]) [0..<h]))))"

subsection \<open>The sequence renderer\<close>

definition center_text_block ::
  "lib \<Rightarrow> nat \<Rightarrow> string list \<Rightarrow> int \<Rightarrow> int \<Rightarrow> int \<Rightarrow> int list \<times> int \<times> int list \<times> int list" where
  "center_text_block L font_px lines canvas_w canvas_h line_spacing =
     (let bboxes = map (textbbox L font_px) lines;
          heights = map (\<lambda>(l, t, r, b). b - t) bboxes;
          widths = map (\<lambda>(l, t, r, b). r - l) bboxes;
          total_h = sum_list heights + line_spacing * (int (length lines) - 1);
          y = (canvas_h - total_h) div 2;
          x_list = map (\<lambda>w. (canvas_w - w) div 2) widths
      in (x_list, y, widths, heights))"

text \<open>The two \<open>draw.text\<close> calls of the loop body.\<close>

definition draw_lines :: "lib \<Rightarrow> nat \<times> nat \<Rightarrow> nat \<Rightarrow> frame \<Rightarrow> frame" where
  "draw_lines L sz font_px frame_in =
     (case sz of (w, h) \<Rightarrow>
        let lines = [TEXT_LINES ! 0, TEXT_LINES ! 1];
            line_spacing = py_int (f64 (of_nat font_px * f64 (45 / 100)))
        in case center_text_block L font_px lines (int w) (int h) line_spacing of
             (x_list, y, widths, heights) \<Rightarrow>
               draw_text L font_px
                 (draw_text L font_px frame_in (x_list ! 0, y) (lines ! 0) GREEN)
                 (x_list ! 1, y + heights ! 0 + line_spacing) (lines ! 1) GREEN)"

text \<open>The glitch kick at loop start, or else tearing at random.\<close>

definition glitch :: "nat \<Rightarrow> frame \<Rightarrow> rng \<Rightarrow> error + (frame \<times> rng)" where
  "glitch i frame g =
     (if i \<in> CHROMA_GLITCH_FRAMES
      then tearing (chroma_shift frame CHROMA_SHIFT_PX) TEAR_SHIFT_PX (2, 4) g
      else case random_random g of
             (u, g1) \<Rightarrow>
               if u < TEAR_PROB then tearing frame (TEAR_SHIFT_PX div 2) TEAR_BANDS g1
               else Inr (frame, g1))"

text \<open>
  One pass of the loop of \<open>render_sequence\<close>; \<open>g\<close> is the generator of Python's
  \<open>random\<close>, \<open>gn\<close> the one of \<open>numpy.random\<close>.
\<close>

definition render_frame ::
  "lib \<Rightarrow> nat \<times> nat \<Rightarrow> nat \<Rightarrow> nat \<Rightarrow> rng \<Rightarrow> rng \<Rightarrow> error + (frame \<times> rng \<times> rng)" where
  "render_frame L sz font_px i g gn =
     bind_err (crt_background L sz CRT_BG_TINT CRT_BG_STRENGTH) (\<lambda>frame0.
     bind_err (image_blend (draw_lines L sz font_px frame0)
                 (gaussian_blur L BLOOM_RADIUS (draw_lines L sz font_px frame0)) BLOOM_GAIN)
       (\<lambda>frame1.
     bind_err (glitch i frame1 g) (\<lambda>(frame2, g1).
     bind_err (vignette L (apply_scanlines frame2 SCANLINE_OPACITY) VIGNETTE_STRENGTH)
       (\<lambda>frame3.
     case add_noise frame3 NOISE_STRENGTH gn of
       (frame4, gn1) \<Rightarrow>
         (case flicker frame4 FLICKER_MIN FLICKER_MAX g1 of
            (frame5, g2) \<Rightarrow>
              bind_err (barrel_distort frame5 CURVATURE_K) (\<lambda>frame6.
                Inr (frame6, g2, gn1)))))))"

fun render_frames ::
  "lib \<Rightarrow> nat \<times> nat \<Rightarrow> nat \<Rightarrow> nat list \<Rightarrow> frame list \<Rightarrow> rng \<Rightarrow> rng
     \<Rightarrow> error + (frame list \<times> rng \<times> rng)" where
  "render_frames L sz font_px [] frames g gn = Inr (frames, g, gn)"
| "render_frames L sz font_px (i # rest) frames g gn =
     (case render_frame L sz font_px i g gn of
        Inl e \<Rightarrow> Inl e
      | Inr (frame, g', gn') \<Rightarrow> render_frames L sz font_px rest (frames @ [frame]) g' gn')"

text \<open>
  What \<open>render_sequence\<close> hands to \<open>imageio.mimsave\<close>: the path, the frames in the order
  of the list, \<open>duration\<close> in seconds and \<open>loop\<close> (0 repeats forever).
\<close>

record gif_call =
  out_path :: string
  gif_frames :: "frame list"
  duration :: rat
  loop :: nat

definition render_sequence ::
  "lib \<Rightarrow> string \<Rightarrow> nat \<times> nat \<Rightarrow> nat \<Rightarrow> rng \<Rightarrow> rng \<Rightarrow> error + (gif_call \<times> rng \<times> rng)" where
  "render_sequence L path sz font_px g gn =
     bind_err (render_frames L sz font_px [0..<FRAMES] [] g gn) (\<lambda>(frames, g', gn').
       Inr (\<lparr>out_path = path, gif_frames = frames,
              duration = f64 (of_int DURATION_MS / 1000), loop = 0\<rparr>, g', gn'))"

text \<open>
  A platform for running the model on a concrete input: blur and text leave the
  frame as it is, and the two float functions are placeholders.
\<close>

definition lib0 :: lib where
  "lib0 = \<lparr>np_sqrt = (\<lambda>x. x), np_power = (\<lambda>x y. x), gaussian_blur = (\<lambda>r f. f),
           textbbox = (\<lambda>n s. (0, 0, 0, 0)), draw_text = (\<lambda>n f pos s c. f)\<rparr>"

text \<open>
  What Pillow promises of the two image functions among the parameters: the blurred
  image and the image with text drawn on it have the size of the image given.
\<close>

definition lib_keeps_size :: "lib \<Rightarrow> bool" where
  "lib_keeps_size L =
     ((\<forall>r f. same_dims (gaussian_blur L r f) f) \<and>
      (\<forall>n f pos s c. same_dims (draw_text L n f pos s c) f))"

text \<open>Every channel of every pixel is a value of the display range 0..255.\<close>

definition in_range :: "frame \<Rightarrow> bool" where
  "in_range img =
     list_all (list_all (\<lambda>p. unat (red p) \<le> 255 \<and> unat (green p) \<le> 255 \<and> unat (blue p) \<le> 255)) img"

text \<open>The mean channel value of a row, the "average brightness" of the specification.\<close>

definition row_mean :: "pixel list \<Rightarrow> rat" where
  "row_mean row =
     of_nat (sum_list (map (\<lambda>p. unat (red p) + unat (green p) + unat (blue p)) row))
       / of_nat (3 * length row)"

section \<open>Properties\<close>

subsection \<open>Rounding\<close>

lemma pow2_powi: "pow2 k = 2 powi k"
  by (simp add: pow2_def power_int_def inverse_eq_divide power_one_over)

lemma pow2_pos [simp]: "0 < pow2 k"
  by (simp add: pow2_powi)

lemma pow2_add: "pow2 (a + b) = pow2 a * pow2 b"
  by (simp add: pow2_powi power_int_add)

lemma pow2_mono: "a \<le> b \<Longrightarrow> pow2 a \<le> pow2 b"
  by (simp add: pow2_powi power_int_increasing)

lemma pow2_less_cancel: "pow2 a < pow2 b \<Longrightarrow> a < b"
  using pow2_mono [of b a] by (cases "a < b") auto

lemma pow2_nat: "pow2 (int n) = 2 ^ n"
  by (simp add: pow2_def)

lemma ilog2_bounds:
  assumes "0 < x"
  shows "pow2 (ilog2 x) \<le> x \<and> x < pow2 (ilog2 x + 1)"
proof (cases "1 \<le> x")
  case True
  define n where "n = \<lfloor>x\<rfloor>"
  have n: "0 < n" using True by (simp add: n_def)
  have b: "1 \<le> bitlen n" using n bitlen_eq_zero_iff [of n] bitlen_nonneg [of n] by linarith
  from bitlen_bounds [OF n] have lo: "2 ^ nat (bitlen n - 1) \<le> n" and hi: "n < 2 ^ nat (bitlen n)"
    by auto
  have "(of_int (2 ^ nat (bitlen n - 1)) :: rat) \<le> of_int n"
    using lo by (simp only: of_int_le_iff)
  also have "\<dots> \<le> x" by (simp add: n_def)
  finally have 1: "pow2 (bitlen n - 1) \<le> x" using b by (simp add: pow2_def)
  have "n + 1 \<le> 2 ^ nat (bitlen n)" using hi by simp
  then have "(of_int (n + 1) :: rat) \<le> of_int (2 ^ nat (bitlen n))"
    by (simp only: of_int_le_iff)
  moreover have "x < of_int (n + 1)" using floor_correct [of x] by (simp add: n_def)
  ultimately have 2: "x < pow2 (bitlen n - 1 + 1)" using b by (simp add: pow2_def)
  show ?thesis using True 1 2 by (simp add: ilog2_def n_def)
next
  case False
  define y where "y = 1 / x"
  define m where "m = \<lceil>y\<rceil> - 1"
  have y1: "1 < y" using False assms by (simp add: y_def)
  have m: "0 < m" using y1 by (simp add: m_def less_ceiling_iff)
  have my: "of_int m < y" by (simp add: m_def) linarith
  have ym: "y \<le> of_int m + 1" by (simp add: m_def)
  have b: "1 \<le> bitlen m" using m bitlen_eq_zero_iff [of m] bitlen_nonneg [of m] by linarith
  from bitlen_bounds [OF m] have lo: "2 ^ nat (bitlen m - 1) \<le> m" and hi: "m < 2 ^ nat (bitlen m)"
    by auto
  have "m + 1 \<le> 2 ^ nat (bitlen m)" using hi by simp
  then have "(of_int (m + 1) :: rat) \<le> of_int (2 ^ nat (bitlen m))"
    by (simp only: of_int_le_iff)
  then have "(of_int m + 1 :: rat) \<le> 2 ^ nat (bitlen m)" by simp
  with ym have "y \<le> 2 ^ nat (bitlen m)" by linarith
  then have "1 / 2 ^ nat (bitlen m) \<le> x"
    using assms by (simp add: y_def field_simps)
  then have 1: "pow2 (- bitlen m) \<le> x" using b by (simp add: pow2_def)
  have "(of_int (2 ^ nat (bitlen m - 1)) :: rat) \<le> of_int m"
    using lo by (simp only: of_int_le_iff)
  then have "(2 ^ nat (bitlen m - 1) :: rat) \<le> of_int m" by simp
  with my have "2 ^ nat (bitlen m - 1) < y" by linarith
  then have "x < 1 / 2 ^ nat (bitlen m - 1)"
    using assms by (simp add: y_def field_simps)
  then have 2: "x < pow2 (- bitlen m + 1)" using b by (auto simp add: pow2_def)
  show ?thesis using False 1 2 by (simp add: ilog2_def m_def y_def)
qed

lemma ilog2_le: "0 < x \<Longrightarrow> x < pow2 (k + 1) \<Longrightarrow> ilog2 x \<le> k"
  using ilog2_bounds [of x] pow2_less_cancel [of "ilog2 x" "k + 1"] by simp

lemma ilog2_ge: "pow2 k \<le> x \<Longrightarrow> k \<le> ilog2 x"
proof -
  assume a: "pow2 k \<le> x"
  then have "0 < x" using pow2_pos [of k] by linarith
  then have "pow2 k < pow2 (ilog2 x + 1)" using ilog2_bounds [of x] a by simp
  then show ?thesis using pow2_less_cancel by fastforce
qed

lemma rhe_cases:
  "round_half_even x = \<lfloor>x\<rfloor> \<and> x - of_int \<lfloor>x\<rfloor> \<le> 1 / 2 \<or>
   round_half_even x = \<lfloor>x\<rfloor> + 1 \<and> 1 / 2 \<le> x - of_int \<lfloor>x\<rfloor>"
  by (simp add: round_half_even_def Let_def)

lemma rhe_err: "\<bar>of_int (round_half_even x) - x\<bar> \<le> 1 / 2"
  using rhe_cases [of x] floor_correct [of x] by (elim disjE conjE) simp_all

lemma rhe_le: "x \<le> of_int n \<Longrightarrow> round_half_even x \<le> n"
proof -
  assume a: "x \<le> of_int n"
  show ?thesis
  proof (cases "x = of_int n")
    case True
    then show ?thesis by (simp add: round_half_even_def)
  next
    case False
    with a have "x < of_int n" by simp
    then have "\<lfloor>x\<rfloor> < n" by (simp add: floor_less_iff)
    then show ?thesis using rhe_cases [of x] by auto
  qed
qed

lemma rhe_ge: "of_int n \<le> x \<Longrightarrow> n \<le> round_half_even x"
proof -
  assume "of_int n \<le> x"
  then have "n \<le> \<lfloor>x\<rfloor>" by (simp add: le_floor_iff)
  then show ?thesis using rhe_cases [of x] by auto
qed

lemma fl_round_err:
  "x \<noteq> 0 \<Longrightarrow> \<bar>fl_round p emin x - x\<bar> \<le> pow2 (max (ilog2 \<bar>x\<bar>) emin - int p)"
proof -
  assume x: "x \<noteq> 0"
  define e where "e = max (ilog2 \<bar>x\<bar>) emin"
  define u where "u = pow2 (e - int p + 1)"
  have u: "0 < u" by (simp add: u_def)
  have fl: "fl_round p emin x = of_int (round_half_even (x / u)) * u"
    using x by (simp add: fl_round_def Let_def e_def u_def)
  have "fl_round p emin x - x = (of_int (round_half_even (x / u)) - x / u) * u"
    using u by (simp add: fl left_diff_distrib)
  then have "\<bar>fl_round p emin x - x\<bar> = \<bar>of_int (round_half_even (x / u)) - x / u\<bar> * u"
    using u by (simp add: abs_mult)
  also have "\<dots> \<le> (1 / 2) * u"
    using rhe_err [of "x / u"] u by (intro mult_right_mono) simp_all
  also have "\<dots> = pow2 (e - int p)"
    using pow2_add [of "e - int p" 1] by (simp add: u_def pow2_def)
  finally show ?thesis by (simp add: e_def)
qed

text \<open>Rounding never crosses a number of the grid it rounds to.\<close>

lemma fl_round_le:
  assumes "x \<le> of_int n * pow2 j" and "x \<noteq> 0" and "max (ilog2 \<bar>x\<bar>) emin - int p + 1 \<le> j"
  shows "fl_round p emin x \<le> of_int n * pow2 j"
proof -
  define e where "e = max (ilog2 \<bar>x\<bar>) emin"
  define u where "u = pow2 (e - int p + 1)"
  define d where "d = nat (j - (e - int p + 1))"
  have u: "0 < u" by (simp add: u_def)
  have "j = int d + (e - int p + 1)"
    using assms(3) by (simp add: d_def e_def)
  then have j: "pow2 j = 2 ^ d * u"
    by (simp only: pow2_add pow2_nat u_def)
  have fl: "fl_round p emin x = of_int (round_half_even (x / u)) * u"
    using assms(2) by (simp add: fl_round_def Let_def e_def u_def)
  have "x / u \<le> of_int (n * 2 ^ d)"
    using assms(1) u by (simp add: j field_simps)
  then have "round_half_even (x / u) \<le> n * 2 ^ d" by (rule rhe_le)
  then have "(of_int (round_half_even (x / u)) :: rat) \<le> of_int (n * 2 ^ d)"
    by (simp only: of_int_le_iff)
  then have "of_int (round_half_even (x / u)) * u \<le> of_int (n * 2 ^ d) * u"
    using u by (intro mult_right_mono) simp_all
  then show ?thesis by (simp add: fl j mult.assoc)
qed

lemma fl_round_ge:
  assumes "of_int n * pow2 j \<le> x" and "x \<noteq> 0" and "max (ilog2 \<bar>x\<bar>) emin - int p + 1 \<le> j"
  shows "of_int n * pow2 j \<le> fl_round p emin x"
proof -
  define e where "e = max (ilog2 \<bar>x\<bar>) emin"
  define u where "u = pow2 (e - int p + 1)"
  define d where "d = nat (j - (e - int p + 1))"
  have u: "0 < u" by (simp add: u_def)
  have "j = int d + (e - int p + 1)"
    using assms(3) by (simp add: d_def e_def)
  then have j: "pow2 j = 2 ^ d * u"
    by (simp only: pow2_add pow2_nat u_def)
  have fl: "fl_round p emin x = of_int (round_half_even (x / u)) * u"
    using assms(2) by (simp add: fl_round_def Let_def e_def u_def)
  have "of_int (n * 2 ^ d) \<le> x / u"
    using assms(1) u by (simp add: j field_simps)
  then have "n * 2 ^ d \<le> round_half_even (x / u)" by (rule rhe_ge)
  then have "(of_int (n * 2 ^ d) :: rat) \<le> of_int (round_half_even (x / u))"
    by (simp only: of_int_le_iff)
  then have "of_int (n * 2 ^ d) * u \<le> of_int (round_half_even (x / u)) * u"
    using u by (intro mult_right_mono) simp_all
  then show ?thesis by (simp add: fl j mult.assoc)
qed

lemma fl_round_nonneg: "0 \<le> x \<Longrightarrow> 0 \<le> fl_round p emin x"
proof (cases "x = 0")
  case True
  then show ?thesis by (simp add: fl_round_def)
next
  case False
  assume "0 \<le> x"
  then have "of_int 0 * pow2 (max (ilog2 \<bar>x\<bar>) emin - int p + 1) \<le> x" by simp
  from fl_round_ge [OF this False] show ?thesis by simp
qed

text \<open>An integer of at most \<open>p\<close> bits bounds the rounding of whatever it bounds.\<close>

lemma fl_round_le_int:
  assumes "0 \<le> x" and "x \<le> of_int n" and "n < 2 ^ p" and "emin \<le> int p - 1"
  shows "fl_round p emin x \<le> of_int n"
proof (cases "x = 0")
  case True
  then show ?thesis using assms by (simp add: fl_round_def)
next
  case False
  have "(of_int n :: rat) < of_int (2 ^ p)" using assms(3) by (simp only: of_int_less_iff)
  then have "(of_int n :: rat) < 2 ^ p" by simp
  then have "x < 2 ^ p" using assms(2) by linarith
  then have "x < pow2 (int p - 1 + 1)" by (simp add: pow2_nat)
  then have "ilog2 x \<le> int p - 1" using assms(1) False by (intro ilog2_le) simp_all
  then have "max (ilog2 \<bar>x\<bar>) emin - int p + 1 \<le> 0" using assms(1,4) by simp
  from fl_round_le [of x n 0, OF _ False this] assms(2) show ?thesis by (simp add: pow2_def)
qed

lemma f32_bounds: "0 \<le> x \<Longrightarrow> x \<le> of_int n \<Longrightarrow> n < 2 ^ 24 \<Longrightarrow> 0 \<le> f32 x \<and> f32 x \<le> of_int n"
  unfolding f32_def using fl_round_nonneg [of x 24 "- 126"] fl_round_le_int [of x n 24 "- 126"] by simp

lemma f64_bounds: "0 \<le> x \<Longrightarrow> x \<le> of_int n \<Longrightarrow> n < 2 ^ 53 \<Longrightarrow> 0 \<le> f64 x \<and> f64 x \<le> of_int n"
  unfolding f64_def using fl_round_nonneg [of x 53 "- 1022"] fl_round_le_int [of x n 53 "- 1022"] by simp

subsection \<open>Moving pixels\<close>

lemma offset_row_zero: "offset_row 0 row = row"
  by (rule nth_equalityI) (simp_all add: offset_row_def)

lemma length_offset_row [simp]: "length (offset_row dx row) = length row"
  by (simp add: offset_row_def)

lemma nth_offset_row:
  "x < length row \<Longrightarrow> offset_row dx row ! x = row ! nat ((int x - dx) mod int (length row))"
  by (simp add: offset_row_def)

lemma chops_offset_rows: "chops_offset im dx 0 = map (offset_row dx) im"
  by (rule nth_equalityI) (simp_all add: chops_offset_def)

lemma merge_rgb_rows:
  "merge_rgb (map f img) (map g img) (map h img) = map (\<lambda>row. zip (f row) (zip (g row) (h row))) img"
  by (induction img) (simp_all add: merge_rgb_def)

lemma chroma_shift_rows:
  "0 < s \<Longrightarrow> chroma_shift img s =
     map (\<lambda>row. zip (offset_row (- s) (map red row))
                  (zip (map green row) (offset_row s (map blue row)))) img"
  by (simp add: chroma_shift_def split_rgb_def chops_offset_rows merge_rgb_rows[where f="\<lambda>r. offset_row (- s) (map red r)" and g="map green" and h="\<lambda>r. offset_row s (map blue r)", simplified] comp_def)

lemma rect_nth: "rect img \<Longrightarrow> y < size_h img \<Longrightarrow> length (img ! y) = size_w img"
  by (simp add: rect_def size_h_def list_all_length)

text \<open>
  C6. A disabling parameter returns the input itself: \<open>barrel_distort\<close> with
  coefficient 0, \<open>tearing\<close> with a maximal shift of 0 or less (no draw is consumed),
  \<open>chroma_shift\<close> with shift 0.
\<close>

theorem disabling_short_circuits:
  "barrel_distort img 0 = Inr img \<and>
   (max_shift \<le> 0 \<longrightarrow> tearing img max_shift bands g = Inr (img, g)) \<and>
   chroma_shift img 0 = img"
  by (simp add: barrel_distort_def tearing_def chroma_shift_def)

theorem disabling_short_circuits_witness:
  "barrel_distort [[(1, 2, 3), (4, 5, 6)]] 0 = Inr [[(1, 2, 3), (4, 5, 6)]] \<and>
   tearing [[(1, 2, 3), (4, 5, 6)]] (- 1) (1, 3) (rng_const 0) = Inr ([[(1, 2, 3), (4, 5, 6)]], rng_const 0) \<and>
   tearing [[(1, 2, 3), (4, 5, 6)]] 0 (1, 3) (rng_const 0) = Inr ([[(1, 2, 3), (4, 5, 6)]], rng_const 0) \<and>
   chroma_shift [[(1, 2, 3), (4, 5, 6)]] 0 = [[(1, 2, 3), (4, 5, 6)]]"
  using disabling_short_circuits [of "[[(1, 2, 3), (4, 5, 6)]]" "- 1" "(1, 3)" "rng_const 0"]
    disabling_short_circuits [of "[[(1, 2, 3), (4, 5, 6)]]" 0 "(1, 3)" "rng_const 0"]
  by simp

text \<open>
  C10. \<open>chroma_shift\<close> with a shift of at least one pixel wraps horizontally: the red
  channel at column \<open>c\<close> is the input's red channel at column \<open>(c + shift_px) mod w\<close>,
  the blue channel the input's at \<open>(c - shift_px) mod w\<close>, and green is the input's
  green. Nothing is dropped or filled: the dimensions are the input's and every
  value comes from the input row.
\<close>

theorem chroma_shift_wraps:
  assumes "1 \<le> shift_px" and "rect img" and "y < size_h img" and "c < size_w img"
  shows "red (chroma_shift img shift_px ! y ! c) =
           red (img ! y ! nat ((int c + shift_px) mod int (size_w img))) \<and>
         blue (chroma_shift img shift_px ! y ! c) =
           blue (img ! y ! nat ((int c - shift_px) mod int (size_w img))) \<and>
         green (chroma_shift img shift_px ! y ! c) = green (img ! y ! c) \<and>
         same_dims (chroma_shift img shift_px) img"
proof -
  have len: "length (img ! y) = size_w img"
    using assms by (simp add: rect_nth)
  have y: "y < length img"
    using assms by (simp add: size_h_def)
  have w: "0 < int (size_w img)"
    using assms by simp
  have r: "nat ((int c + shift_px) mod int (size_w img)) < length (img ! y)"
    using w len by (simp add: nat_less_iff)
  have b: "nat ((int c - shift_px) mod int (size_w img)) < length (img ! y)"
    using w len by (simp add: nat_less_iff)
  show ?thesis
    using assms y len r b
    by (simp add: chroma_shift_rows nth_offset_row red_def green_def blue_def same_dims_def comp_def)
qed

theorem chroma_shift_wraps_witness:
  "red (chroma_shift [[(1, 2, 3), (4, 5, 6), (7, 8, 9)]] 1 ! 0 ! 2) = 1 \<and>
   blue (chroma_shift [[(1, 2, 3), (4, 5, 6), (7, 8, 9)]] 1 ! 0 ! 0) = 9 \<and>
   green (chroma_shift [[(1, 2, 3), (4, 5, 6), (7, 8, 9)]] 1 ! 0 ! 2) = 8"
  using chroma_shift_wraps [of 1 "[[(1, 2, 3), (4, 5, 6), (7, 8, 9)]]" 0 2]
    chroma_shift_wraps [of 1 "[[(1, 2, 3), (4, 5, 6), (7, 8, 9)]]" 0 0]
  by (simp add: rect_def size_w_def size_h_def red_def green_def blue_def)

subsection \<open>Tearing\<close>

lemma pow2_nonneg [simp]: "0 \<le> pow2 k"
  by (rule less_imp_le) (rule pow2_pos)

lemma fl_round_rel:
  assumes "pow2 emin \<le> \<bar>x\<bar>"
  shows "\<bar>fl_round p emin x - x\<bar> \<le> \<bar>x\<bar> * pow2 (- int p)"
proof -
  have "0 < \<bar>x\<bar>" by (rule less_le_trans [OF pow2_pos assms])
  then have x: "x \<noteq> 0" by simp
  have e: "emin \<le> ilog2 \<bar>x\<bar>" using assms by (rule ilog2_ge)
  have "\<bar>fl_round p emin x - x\<bar> \<le> pow2 (ilog2 \<bar>x\<bar> + (- int p))"
    using fl_round_err [OF x, of p emin] e by (simp add: max_def)
  also have "\<dots> = pow2 (ilog2 \<bar>x\<bar>) * pow2 (- int p)" by (rule pow2_add)
  also have "\<dots> \<le> \<bar>x\<bar> * pow2 (- int p)"
    using ilog2_bounds [of "\<bar>x\<bar>"] x by (intro mult_right_mono) simp_all
  finally show ?thesis .
qed

lemma f64_rel: "1 / 64 \<le> x \<Longrightarrow> f64 x \<le> x * (1 + 1 / 2 ^ 53)"
proof -
  assume a: "1 / 64 \<le> x"
  have "pow2 (- 1022) \<le> pow2 (- 6)" by (rule pow2_mono) simp
  also have "\<dots> = 1 / 64" by (simp add: pow2_def)
  finally have "pow2 (- 1022) \<le> \<bar>x\<bar>" using a by simp
  from fl_round_rel [OF this, of 53] a have "\<bar>f64 x - x\<bar> \<le> x * (1 / 2 ^ 53)"
    by (simp add: f64_def pow2_def)
  moreover have "f64 x - x \<le> \<bar>f64 x - x\<bar>" by simp
  ultimately show ?thesis by (simp add: algebra_simps)
qed

lemma f64_006: "f64 (6 / 100) = 1080863910568919 / 18014398509481984"
  by code_simp

lemma tear_height_le:
  assumes "1 \<le> h"
  shows "py_int (f64 (f64 (of_int h) * f64 (6 / 100))) \<le> h"
proof -
  define a where "a = f64 (of_int h)"
  define c where "c = f64 (6 / 100)"
  have cv: "c = 1080863910568919 / 18014398509481984"
    unfolding c_def by (rule f64_006)
  have h: "(1 :: rat) \<le> of_int h" using assms by simp
  have a_hi: "a \<le> of_int h * (1 + 1 / 2 ^ 53)"
    unfolding a_def using h by (intro f64_rel) simp
  have a_lo: "0 \<le> a"
    unfolding a_def f64_def using h by (intro fl_round_nonneg) simp
  have ac: "0 \<le> a * c" using a_lo by (simp add: cv)
  have r0: "0 \<le> f64 (a * c)"
    unfolding f64_def using ac by (rule fl_round_nonneg)
  have "f64 (a * c) \<le> of_int h"
  proof (cases "1 / 64 \<le> a * c")
    case True
    then have "f64 (a * c) \<le> a * c * (1 + 1 / 2 ^ 53)" by (rule f64_rel)
    also have "\<dots> \<le> (of_int h * (1 + 1 / 2 ^ 53)) * c * (1 + 1 / 2 ^ 53)"
      using a_hi by (intro mult_right_mono) (simp_all add: cv)
    also have "\<dots> = of_int h * ((1 + 1 / 2 ^ 53) * c * (1 + 1 / 2 ^ 53))" by simp
    also have "\<dots> \<le> of_int h * 1"
      using h by (intro mult_left_mono) (simp_all add: cv)
    finally show ?thesis by simp
  next
    case False
    then have "a * c \<le> of_int 1" by simp
    with ac have "f64 (a * c) \<le> of_int 1"
      using f64_bounds [of "a * c" 1] by simp
    with h show ?thesis by simp
  qed
  then have "\<lfloor>f64 (a * c)\<rfloor> \<le> h" by (simp add: floor_le_iff)
  then have "py_int (f64 (a * c)) \<le> h" using r0 by (simp add: py_int_def)
  then show ?thesis by (simp only: a_def c_def)
qed

lemma randint_ok:
  "a \<le> b \<Longrightarrow> \<exists>v. randint a b g = Inr (v, rng_tail g) \<and> a \<le> v \<and> v \<le> b"
  by (simp add: randint_def) (smt (verit) pos_mod_bound pos_mod_sign)

lemma randint_Inr:
  "randint a b g = Inr (v, g') \<Longrightarrow> a \<le> v \<and> v \<le> b \<and> g' = rng_tail g"
  using randint_ok [of a b g] by (auto simp: randint_def split: if_splits)

lemma randint_empty: "b < a \<Longrightarrow> randint a b g = Inl ValueError"
  by (simp add: randint_def)

lemma same_dims_refl [simp]: "same_dims a a"
  by (simp add: same_dims_def)

lemma same_dims_trans: "same_dims a b \<Longrightarrow> same_dims b c \<Longrightarrow> same_dims a c"
  by (simp add: same_dims_def)

lemma same_dims_sym: "same_dims a b \<Longrightarrow> same_dims b a"
  by (simp add: same_dims_def)

lemma same_dims_size_h: "same_dims a b \<Longrightarrow> size_h a = size_h b"
  unfolding same_dims_def size_h_def by (metis length_map)

lemma same_dims_size_w: "same_dims a b \<Longrightarrow> size_w a = size_w b"
  unfolding same_dims_def size_w_def by (cases a; cases b) auto

lemma same_dims_rect: "same_dims a b \<Longrightarrow> rect b \<Longrightarrow> rect a"
proof -
  assume sd: "same_dims a b" and r: "rect b"
  have l: "length a = length b" using sd unfolding same_dims_def by (metis length_map)
  have "\<And>i. i < length a \<Longrightarrow> length (a ! i) = length (b ! i)"
    using sd l unfolding same_dims_def by (metis nth_map)
  then show ?thesis
    using r l same_dims_size_w [OF sd] by (simp add: rect_def list_all_length)
qed

lemma paste_offset_dims:
  "same_dims (paste_rows base (chops_offset (crop_rows base ty th) shift 0) ty) base"
proof -
  define L where "L = map length base"
  have len: "length (take th (drop ty base)) \<le> length base - ty" by simp
  have "map length (paste_rows base (chops_offset (crop_rows base ty th) shift 0) ty)
      = take ty L @ take th (drop ty L) @ drop (ty + min th (length L - ty)) L"
    by (simp add: paste_rows_def chops_offset_rows crop_rows_def L_def take_map drop_map
        comp_def min_def)
  also have "\<dots> = L"
  proof (cases "th \<le> length L - ty")
    case True
    then have "drop (ty + min th (length L - ty)) L = drop th (drop ty L)"
      by (simp add: min_def add.commute)
    then have "take ty L @ take th (drop ty L) @ drop (ty + min th (length L - ty)) L
        = take ty L @ (take th (drop ty L) @ drop th (drop ty L))"
      by (simp only:)
    also have "\<dots> = L" by (simp only: append_take_drop_id)
    finally show ?thesis .
  next
    case False
    then show ?thesis by (simp add: min_def)
  qed
  finally show ?thesis by (simp add: same_dims_def L_def)
qed

lemma tear_band_dims:
  "tear_band h max_shift base g = Inr (base', g') \<Longrightarrow> same_dims base' base"
  unfolding tear_band_def
  by (auto split: sum.splits prod.splits simp: paste_offset_dims)

lemma tear_band_ok:
  assumes "6 \<le> h" and "0 \<le> max_shift"
  shows "\<exists>base' g'. tear_band h max_shift base g = Inr (base', g')"
proof -
  define top where "top = max 6 (py_int (f64 (f64 (of_int h) * f64 (6 / 100))))"
  have top: "4 \<le> top" "top \<le> h"
    using assms(1) tear_height_le [of h] by (simp_all add: top_def)
  obtain th where th: "randint 4 top g = Inr (th, rng_tail g)" "4 \<le> th" "th \<le> top"
    using randint_ok [of 4 top g] top by auto
  obtain ty where ty: "randint 0 (h - th) (rng_tail g) = Inr (ty, rng_tail (rng_tail g))"
    using randint_ok [of 0 "h - th" "rng_tail g"] th top by auto
  obtain s where s: "randint (- max_shift) max_shift (rng_tail (rng_tail g))
      = Inr (s, rng_tail (rng_tail (rng_tail g)))"
    using randint_ok [of "- max_shift" max_shift "rng_tail (rng_tail g)"] assms(2) by auto
  show ?thesis
    using th(1) ty s by (simp add: tear_band_def top_def)
qed

lemma tear_band_small:
  assumes "h < 4"
  shows "tear_band h max_shift base g = Inl ValueError"
proof -
  define top where "top = max 6 (py_int (f64 (f64 (of_int h) * f64 (6 / 100))))"
  have "4 \<le> top" by (simp add: top_def)
  then obtain th where th: "randint 4 top g = Inr (th, rng_tail g)" "4 \<le> th"
    using randint_ok [of 4 top g] by auto
  have "randint 0 (h - th) (rng_tail g) = Inl ValueError"
    using th(2) assms by (intro randint_empty) simp
  then show ?thesis using th(1) by (simp add: tear_band_def top_def)
qed

lemma tear_loop_dims:
  "tear_loop n h max_shift base g = Inr (out, g') \<Longrightarrow> same_dims out base"
proof (induction n arbitrary: base g)
  case 0
  then show ?case by simp
next
  case (Suc n)
  then obtain b1 g1 where b1: "tear_band h max_shift base g = Inr (b1, g1)"
    and rest: "tear_loop n h max_shift b1 g1 = Inr (out, g')"
    by (auto split: sum.splits)
  from Suc.IH [OF rest] tear_band_dims [OF b1] show ?case by (rule same_dims_trans)
qed

lemma tear_loop_ok:
  assumes "6 \<le> h" and "0 \<le> max_shift"
  shows "\<exists>out g'. tear_loop n h max_shift base g = Inr (out, g')"
proof (induction n arbitrary: base g)
  case 0
  show ?case by simp
next
  case (Suc n)
  obtain b1 g1 where b1: "tear_band h max_shift base g = Inr (b1, g1)"
    using tear_band_ok [OF assms] by blast
  with Suc.IH [of b1 g1] show ?case by simp
qed

lemma tearing_dims:
  "tearing img max_shift bands g = Inr (out, g') \<Longrightarrow> same_dims out img"
  unfolding tearing_def
  by (auto split: if_splits sum.splits dest: tear_loop_dims)

lemma tearing_ok:
  assumes "fst bands \<le> snd bands" and "max_shift \<le> 0 \<or> 6 \<le> size_h img"
  shows "\<exists>out g'. tearing img max_shift bands g = Inr (out, g')"
proof (cases "max_shift \<le> 0")
  case True
  then show ?thesis by (simp add: tearing_def)
next
  case False
  with assms(2) have h: "6 \<le> int (size_h img)" and m: "0 \<le> max_shift" by simp_all
  obtain n where n: "randint (fst bands) (snd bands) g = Inr (n, rng_tail g)"
    using randint_ok [OF assms(1)] by blast
  from tear_loop_ok [OF h m, of "nat n" img "rng_tail g"] n False
  show ?thesis by (simp add: tearing_def)
qed

lemma tearing_small:
  assumes "size_h img < 4" and "0 < max_shift" and "1 \<le> fst bands" and "fst bands \<le> snd bands"
  shows "tearing img max_shift bands g = Inl ValueError"
proof -
  obtain n where n: "randint (fst bands) (snd bands) g = Inr (n, rng_tail g)" "fst bands \<le> n"
    using randint_ok [OF assms(4)] by blast
  then obtain k where k: "nat n = Suc k" using assms(3) by (cases "nat n") auto
  have "tear_band (int (size_h img)) max_shift img (rng_tail g) = Inl ValueError"
    using assms(1) by (intro tear_band_small) simp
  then show ?thesis using n(1) k assms(2) by (simp add: tearing_def)
qed

subsection \<open>Dimensions\<close>

lemma length_imap [simp]: "length (imap f xs) = length xs"
  by (simp add: imap_def)

lemma nth_imap [simp]: "i < length xs \<Longrightarrow> imap f xs ! i = f i (xs ! i)"
  by (simp add: imap_def)

lemma same_dims_nth:
  "same_dims a b \<longleftrightarrow> length a = length b \<and> (\<forall>i < length a. length (a ! i) = length (b ! i))"
  unfolding same_dims_def by (auto simp: list_eq_iff_nth_eq)

lemma apply_scanlines_dims: "same_dims (apply_scanlines img opacity) img"
  by (simp add: same_dims_nth apply_scanlines_def)

lemma flicker_dims: "same_dims (fst (flicker img low high g)) img"
  by (simp add: same_dims_nth flicker_def split: prod.splits)

lemma add_noise_dims: "same_dims (fst (add_noise img strength gn)) img"
  by (simp add: same_dims_nth add_noise_def Let_def)

lemma chroma_shift_dims: "same_dims (chroma_shift img shift_px) img"
proof (cases "0 < shift_px")
  case True
  then show ?thesis by (simp add: same_dims_nth chroma_shift_rows)
next
  case False
  then show ?thesis by (simp add: chroma_shift_def)
qed

lemma vignette_dims: "vignette L img strength = Inr out \<Longrightarrow> same_dims out img"
  by (auto simp: vignette_def Let_def bind_err_def same_dims_nth split: sum.splits)

lemma radius_max_ok: "0 < w \<Longrightarrow> 0 < h \<Longrightarrow> \<exists>r. radius_max L w h = Inr r"
proof -
  assume "0 < w" "0 < h"
  then obtain w' h' where "w = Suc w'" "h = Suc h'" by (cases w; cases h) auto
  then show ?thesis by (simp add: radius_max_def upt_conv_Cons del: upt_Suc)
qed

lemma concat_empty_rows: "concat (map (\<lambda>y. []) ys) = []"
  by (induction ys) simp_all

lemma radius_max_empty: "w = 0 \<or> h = 0 \<Longrightarrow> radius_max L w h = Inl ValueError"
  by (auto simp: radius_max_def concat_empty_rows)

lemma vignette_ok:
  "0 < size_w img \<Longrightarrow> 0 < size_h img \<Longrightarrow> \<exists>out. vignette L img strength = Inr out"
  using radius_max_ok [of "size_w img" "size_h img" L]
  by (auto simp: vignette_def Let_def bind_err_def)

lemma image_blend_dims: "image_blend im1 im2 alpha = Inr out \<Longrightarrow> same_dims out im1"
  by (auto simp: image_blend_def same_dims_nth split: if_splits)

lemma add_bloom_simple_dims:
  "add_bloom_simple L base radius gain = Inr out \<Longrightarrow> same_dims out base"
  unfolding add_bloom_simple_def by (rule image_blend_dims)

lemma image_blend_ok: "same_dims im1 im2 \<Longrightarrow> \<exists>out. image_blend im1 im2 alpha = Inr out"
  by (simp add: image_blend_def)

lemma barrel_distort_dims:
  assumes "barrel_distort img k = Inr out" and "rect img"
  shows "same_dims out img"
proof (cases "k \<le> 0")
  case True
  with assms show ?thesis by (simp add: barrel_distort_def)
next
  case False
  with assms(1) have out: "out = map (\<lambda>yy. map (\<lambda>xx. case barrel_src k (size_w img) (size_h img) yy xx of
      (ys, xs) \<Rightarrow> img ! ys ! xs) [0..<size_w img]) [0..<size_h img]"
    by (auto simp: barrel_distort_def Let_def split: if_splits)
  show ?thesis
    using assms(2) by (simp add: out same_dims_nth size_h_def rect_def list_all_length)
qed

lemma barrel_distort_ok:
  "k \<le> 0 \<or> 2 \<le> size_w img \<and> 2 \<le> size_h img \<Longrightarrow> \<exists>out. barrel_distort img k = Inr out"
  by (auto simp: barrel_distort_def Let_def)

lemma keeps_dims_same: "same_dims out img \<Longrightarrow> rect img \<Longrightarrow> keeps_dims out img"
  by (simp add: keeps_dims_def same_dims_size_w same_dims_size_h same_dims_rect)

lemma rect_image_new [simp]: "rect (image_new w h c)"
  by (cases h) (simp_all add: rect_def image_new_def size_w_def list_all_iff)

lemma size_image_new [simp]: "size_h (image_new w h c) = h" "0 < h \<Longrightarrow> size_w (image_new w h c) = w"
  by (cases h; simp add: size_h_def image_new_def size_w_def)+

text \<open>
  C2. Every stage of the effects pipeline returns a frame of the width and the height
  of its input. A stage that can raise does so before it builds any frame.
\<close>

theorem stages_keep_dimensions:
  assumes "rect img"
  shows "keeps_dims (apply_scanlines img opacity) img \<and>
         (\<forall>out. add_bloom_simple L img radius gain = Inr out \<longrightarrow> keeps_dims out img) \<and>
         (\<forall>out. vignette L img strength = Inr out \<longrightarrow> keeps_dims out img) \<and>
         keeps_dims (fst (add_noise img noise gn)) img \<and>
         (\<forall>out. barrel_distort img k = Inr out \<longrightarrow> keeps_dims out img) \<and>
         keeps_dims (chroma_shift img shift_px) img \<and>
         (\<forall>out g'. tearing img max_shift bands g = Inr (out, g') \<longrightarrow> keeps_dims out img) \<and>
         keeps_dims (fst (flicker img low high g)) img"
  using assms
  by (auto intro!: keeps_dims_same apply_scanlines_dims add_noise_dims chroma_shift_dims
      flicker_dims
      dest: add_bloom_simple_dims vignette_dims barrel_distort_dims tearing_dims)

theorem stages_keep_dimensions_witness:
  "keeps_dims (apply_scanlines (image_new 2 6 BG) (1 / 5)) (image_new 2 6 BG) \<and>
   (\<exists>out. add_bloom_simple lib0 (image_new 2 6 BG) 2 (3 / 4) = Inr out \<and>
      keeps_dims out (image_new 2 6 BG)) \<and>
   (\<exists>out. vignette lib0 (image_new 2 6 BG) (1 / 3) = Inr out \<and>
      keeps_dims out (image_new 2 6 BG)) \<and>
   keeps_dims (fst (add_noise (image_new 2 6 BG) (1 / 20) (rng_const 0))) (image_new 2 6 BG) \<and>
   (\<exists>out. barrel_distort (image_new 2 6 BG) (2 / 25) = Inr out \<and>
      keeps_dims out (image_new 2 6 BG)) \<and>
   keeps_dims (chroma_shift (image_new 2 6 BG) 1) (image_new 2 6 BG) \<and>
   (\<exists>out g'. tearing (image_new 2 6 BG) 12 (1, 3) (rng_const 0) = Inr (out, g') \<and>
      keeps_dims out (image_new 2 6 BG)) \<and>
   keeps_dims (fst (flicker (image_new 2 6 BG) (19 / 20) (21 / 20) (rng_const 0))) (image_new 2 6 BG)"
proof -
  let ?img = "image_new 2 6 BG"
  have r: "rect ?img" by simp
  obtain o1 where o1: "add_bloom_simple lib0 ?img 2 (3 / 4) = Inr o1"
    using image_blend_ok [of ?img ?img "3 / 4"] by (auto simp: add_bloom_simple_def lib0_def)
  obtain o2 where o2: "vignette lib0 ?img (1 / 3) = Inr o2"
    using vignette_ok [of ?img lib0 "1 / 3"] by auto
  obtain o3 where o3: "barrel_distort ?img (2 / 25) = Inr o3"
    using barrel_distort_ok [of "2 / 25" ?img] by auto
  obtain o4 g4 where o4: "tearing ?img 12 (1, 3) (rng_const 0) = Inr (o4, g4)"
    using tearing_ok [of "(1, 3)" 12 ?img "rng_const 0"] by auto
  show ?thesis
    using stages_keep_dimensions [OF r, of "1 / 5" lib0 2 "3 / 4" "1 / 3" "1 / 20" "rng_const 0"
        "2 / 25" 1 12 "(1, 3)" "rng_const 0" "19 / 20" "21 / 20"] o1 o2 o3 o4
    by simp
qed

text \<open>
  C8, as stated, fails: \<open>tearing\<close> draws a band height of at least 4 and then a band
  position from \<open>0 .. h - th\<close>, which is an empty range on a frame of one row.
\<close>

theorem tearing_raises_on_low_frame:
  "0 < size_w [[(0, 0, 0) :: pixel]] \<and> 0 < size_h [[(0, 0, 0) :: pixel]] \<and>
   tearing [[(0, 0, 0)]] 1 (1, 3) (rng_const 0) = Inl ValueError"
proof -
  have "tearing [[(0, 0, 0)]] 1 (1, 3) (rng_const 0) = Inl ValueError"
    by (rule tearing_small) (simp_all add: size_h_def)
  then show ?thesis by (simp add: size_w_def size_h_def)
qed

text \<open>
  C8, amended. No stage raises on a frame of at least two columns and six rows, nor
  on a disabling parameter value: \<open>tearing\<close> returns a frame when the frame has at
  least six rows or the maximal shift is 0 or less (its band range being ordered),
  \<open>vignette\<close> when the frame has a pixel, \<open>barrel_distort\<close> when the coefficient is 0 or
  less or the frame has two rows and two columns, \<open>add_bloom_simple\<close> when the blur
  keeps the size. \<open>apply_scanlines\<close>, \<open>add_noise\<close>, \<open>flicker\<close> and \<open>chroma_shift\<close> contain
  no operation that raises and are total functions.
\<close>

theorem stages_return:
  "(fst bands \<le> snd bands \<and> (max_shift \<le> 0 \<or> 6 \<le> size_h img) \<longrightarrow>
      (\<exists>out g'. tearing img max_shift bands g = Inr (out, g'))) \<and>
   (0 < size_w img \<and> 0 < size_h img \<longrightarrow> (\<exists>out. vignette L img strength = Inr out)) \<and>
   (k \<le> 0 \<or> 2 \<le> size_w img \<and> 2 \<le> size_h img \<longrightarrow> (\<exists>out. barrel_distort img k = Inr out)) \<and>
   (same_dims (gaussian_blur L radius img) img \<longrightarrow>
      (\<exists>out. add_bloom_simple L img radius gain = Inr out))"
  using tearing_ok [of bands max_shift img g] vignette_ok [of img L strength]
    barrel_distort_ok [of k img] image_blend_ok [of img "gaussian_blur L radius img" gain]
  by (auto simp: add_bloom_simple_def dest: same_dims_sym)

theorem stages_return_witness:
  "(\<exists>out g'. tearing (image_new 2 6 BG) 12 (1, 3) (rng_const 0) = Inr (out, g')) \<and>
   (\<exists>out g'. tearing [[(0, 0, 0)]] 0 (1, 3) (rng_const 0) = Inr (out, g')) \<and>
   (\<exists>out. vignette lib0 (image_new 2 6 BG) 0 = Inr out) \<and>
   (\<exists>out. barrel_distort (image_new 2 6 BG) (2 / 25) = Inr out) \<and>
   (\<exists>out. barrel_distort [[(0, 0, 0)]] 0 = Inr out) \<and>
   (\<exists>out. add_bloom_simple lib0 (image_new 2 6 BG) 2 (3 / 4) = Inr out)"
  using stages_return [of "(1, 3)" 12 "image_new 2 6 BG" "rng_const 0" lib0 0 "2 / 25" 2 "3 / 4"]
    stages_return [of "(1, 3)" 0 "[[(0, 0, 0)]]" "rng_const 0" lib0 0 0 2 "3 / 4"]
  by (simp add: lib0_def)

subsection \<open>Evaluating the rounding on numerals\<close>

lemma bitlen_one [simp]: "bitlen 1 = 1"
  by (subst compute_bitlen) simp

lemma bitlen_Bit0 [simp]: "bitlen (numeral (Num.Bit0 n)) = bitlen (numeral n) + 1"
proof -
  have "(numeral (Num.Bit0 n) :: int) div 2 = numeral n" by simp
  then show ?thesis by (subst compute_bitlen) (simp only: zero_less_numeral if_True)
qed

lemma bitlen_Bit1 [simp]: "bitlen (numeral (Num.Bit1 n)) = bitlen (numeral n) + 1"
proof -
  have "(numeral (Num.Bit1 n) :: int) div 2 = numeral n" by simp
  then show ?thesis by (subst compute_bitlen) (simp only: zero_less_numeral if_True)
qed

lemma floor_rat_numeral [simp]:
  "\<lfloor>numeral a / numeral b :: rat\<rfloor> = numeral a div numeral b"
  using floor_divide_of_int_eq [of "numeral a" "numeral b", where ?'a = rat] by simp

lemma ceiling_rat_numeral [simp]:
  "\<lceil>numeral a / numeral b :: rat\<rceil> = - (- numeral a div numeral b)"
  using ceiling_divide_eq_div [of "numeral a" "numeral b", where ?'a = rat] by simp

lemmas fl_eval = f32_def f64_def fl_round_def ilog2_def pow2_def round_half_even_def Let_def
  py_int_def clip_scale_def clipf_def

lemma all_less_numeral:
  "(\<forall>n < numeral k. P n) \<longleftrightarrow> P (pred_numeral k) \<and> (\<forall>n < pred_numeral k. P n)"
  by (simp add: numeral_eq_Suc less_Suc_eq) blast

lemma all_less_zero: "(\<forall>n < (0::nat). P n) \<longleftrightarrow> True"
  by simp

lemmas all_less_unfold = all_less_numeral all_less_zero pred_numeral_simps BitM.simps
  numeral_One simp_thms

subsection \<open>Range of the values cast to uint8\<close>

lemma fl_round_zero [simp]: "fl_round p emin 0 = 0"
  by (simp add: fl_round_def)

lemma f32_between:
  assumes "of_int lo \<le> x" and "x \<le> of_int hi" and "\<bar>lo\<bar> < 2 ^ 24" and "\<bar>hi\<bar> < 2 ^ 24"
  shows "of_int lo \<le> f32 x \<and> f32 x \<le> of_int hi"
proof (cases "x = 0")
  case True
  with assms show ?thesis by (simp add: f32_def)
next
  case False
  have "(of_int \<bar>lo\<bar> :: rat) < of_int (2 ^ 24)" "(of_int \<bar>hi\<bar> :: rat) < of_int (2 ^ 24)"
    using assms(3,4) by (simp_all only: of_int_less_iff)
  then have "\<bar>of_int lo :: rat\<bar> < 16777216" "\<bar>of_int hi :: rat\<bar> < 16777216"
    by simp_all
  then have "\<bar>x\<bar> < 16777216" using assms(1,2) by linarith
  then have "\<bar>x\<bar> < pow2 (23 + 1)" by (simp add: pow2_def)
  then have "ilog2 \<bar>x\<bar> \<le> 23" using False by (intro ilog2_le) simp_all
  then have e: "max (ilog2 \<bar>x\<bar>) (- 126) - int 24 + 1 \<le> 0" by simp
  have lo: "of_int lo * pow2 0 \<le> x" and hi: "x \<le> of_int hi * pow2 0"
    using assms(1,2) by (simp_all add: pow2_def)
  from fl_round_ge [OF lo False e] fl_round_le [OF hi False e]
  show ?thesis by (simp add: f32_def pow2_def)
qed

lemma clipf_unit: "0 \<le> clipf a 0 1 \<and> clipf a 0 1 \<le> 1"
  by (simp add: clipf_def)

lemma clip_scale_range: "0 \<le> clip_scale a \<and> clip_scale a \<le> 255"
proof -
  have "of_int 0 \<le> clipf a 0 1 * 255" "clipf a 0 1 * 255 \<le> of_int 255"
    using clipf_unit [of a] by simp_all
  from f32_between [OF this] show ?thesis by (simp add: clip_scale_def)
qed

lemma uint_to_u8: "0 \<le> x \<Longrightarrow> x \<le> 255 \<Longrightarrow> uint (to_u8 x) = \<lfloor>x\<rfloor>"
proof -
  assume a: "0 \<le> x" "x \<le> 255"
  then have "0 \<le> \<lfloor>x\<rfloor>" "\<lfloor>x\<rfloor> < 2 ^ 8" by (simp_all add: floor_less_iff)
  then have "take_bit 8 \<lfloor>x\<rfloor> = \<lfloor>x\<rfloor>" by (intro take_bit_int_eq_self)
  then show ?thesis using a by (simp add: to_u8_def py_int_def uint_word_of_int_eq)
qed

lemma u8_le_255: "unat (v :: u8) \<le> 255"
  using unsigned_less [of v, where ?'a = nat] by simp

lemma uint_u8_range: "0 \<le> uint (v :: u8) \<and> uint v \<le> 255"
  using uint_lt2p [of v] by simp

lemma in_range_any: "in_range img"
  by (simp add: in_range_def list_all_iff u8_le_255)

lemma blend_val_range:
  assumes "0 \<le> f32 alpha" and "f32 alpha \<le> 1"
  shows "0 \<le> blend_val alpha a b \<and> blend_val alpha a b \<le> 255"
proof -
  define al where "al = f32 alpha"
  define d where "d = uint b - uint a"
  define t where "t = f32 (al * of_int d)"
  have ra: "0 \<le> uint a" "uint a \<le> 255" and rb: "0 \<le> uint b" "uint b \<le> 255"
    using uint_u8_range by simp_all
  have al: "0 \<le> al" "al \<le> 1" using assms by (simp_all add: al_def)
  have prod: "of_int (min 0 d) \<le> al * of_int d \<and> al * of_int d \<le> of_int (max 0 d)"
  proof (cases "0 \<le> d")
    case True
    then have "0 \<le> al * of_int d" "al * of_int d \<le> 1 * of_int d"
      using al by (simp, intro mult_right_mono, simp_all)
    with True show ?thesis by (simp add: min_def max_def)
  next
    case False
    then have "(of_int d :: rat) \<le> 0" by simp
    then have "al * of_int d \<le> 0" "1 * of_int d \<le> al * of_int d"
      using al by (simp add: mult_nonneg_nonpos, intro mult_right_mono_neg, simp_all)
    with False show ?thesis by (simp add: min_def max_def)
  qed
  have "\<bar>min 0 d\<bar> \<le> 255" "\<bar>max 0 d\<bar> \<le> 255"
    unfolding d_def using ra rb by linarith+
  then have "\<bar>min 0 d\<bar> < 2 ^ 24" "\<bar>max 0 d\<bar> < 2 ^ 24"
    by simp_all
  with prod have t: "of_int (min 0 d) \<le> t \<and> t \<le> of_int (max 0 d)"
    unfolding t_def by (intro f32_between) simp_all
  have "of_int 0 \<le> of_int (uint a) + t" "of_int (uint a) + t \<le> of_int 255"
  proof -
    have "(of_int (uint a + min 0 d) :: rat) \<le> of_int (uint a) + t"
      using t by simp
    moreover have "0 \<le> uint a + min 0 d" unfolding d_def using ra rb by linarith
    then have "(of_int 0 :: rat) \<le> of_int (uint a + min 0 d)" by (simp only: of_int_le_iff)
    ultimately show "of_int 0 \<le> of_int (uint a) + t" by linarith
    have "of_int (uint a) + t \<le> (of_int (uint a + max 0 d) :: rat)"
      using t by simp
    moreover have "uint a + max 0 d \<le> 255" unfolding d_def using ra rb by linarith
    then have "(of_int (uint a + max 0 d) :: rat) \<le> of_int 255" by (simp only: of_int_le_iff)
    ultimately show "of_int (uint a) + t \<le> of_int 255" by linarith
  qed
  from f32_between [OF this] show ?thesis
    by (simp add: blend_val_def t_def al_def d_def)
qed

subsection \<open>The display range\<close>

lemma val_ranges:
  "0 \<le> scan_val m v \<and> scan_val m v \<le> 255"
  "0 \<le> vig_val m v \<and> vig_val m v \<le> 255"
  "0 \<le> noise_val n v \<and> noise_val n v \<le> 255"
  "0 \<le> flicker_val factor v \<and> flicker_val factor v \<le> 255"
  "0 \<le> glow_val t m \<and> glow_val t m \<le> 255"
  by (simp_all only: scan_val_def vig_val_def noise_val_def flicker_val_def glow_val_def
      clip_scale_range)

text \<open>
  C3. Every channel of every frame that a stage returns is a value of 0..255. For
  the stages that compute in floating point this is the work of the clamp: the value
  handed to the cast to uint8 lies between 0 and 255, so the cast truncates and never
  wraps around. \<open>Image.blend\<close> stays between its two inputs for a gain between 0 and
  1 and clamps otherwise. The stages that move pixels copy channel values.
\<close>

theorem stages_keep_range:
  "in_range (apply_scanlines img opacity) \<and>
   (\<forall>out. add_bloom_simple L img radius gain = Inr out \<longrightarrow> in_range out) \<and>
   (\<forall>out. vignette L img strength = Inr out \<longrightarrow> in_range out) \<and>
   in_range (fst (add_noise img noise gn)) \<and>
   (\<forall>out. barrel_distort img k = Inr out \<longrightarrow> in_range out) \<and>
   in_range (chroma_shift img shift_px) \<and>
   (\<forall>out g'. tearing img max_shift bands g = Inr (out, g') \<longrightarrow> in_range out) \<and>
   in_range (fst (flicker img low high g)) \<and>
   (0 \<le> scan_val m v \<and> scan_val m v \<le> 255 \<and> uint (to_u8 (scan_val m v)) = \<lfloor>scan_val m v\<rfloor>) \<and>
   (0 \<le> vig_val m v \<and> vig_val m v \<le> 255 \<and> uint (to_u8 (vig_val m v)) = \<lfloor>vig_val m v\<rfloor>) \<and>
   (0 \<le> noise_val n v \<and> noise_val n v \<le> 255 \<and>
      uint (to_u8 (noise_val n v)) = \<lfloor>noise_val n v\<rfloor>) \<and>
   (0 \<le> flicker_val factor v \<and> flicker_val factor v \<le> 255 \<and>
      uint (to_u8 (flicker_val factor v)) = \<lfloor>flicker_val factor v\<rfloor>) \<and>
   (0 \<le> f32 alpha \<and> f32 alpha \<le> 1 \<longrightarrow>
      0 \<le> blend_val alpha a b \<and> blend_val alpha a b \<le> 255 \<and>
      uint (to_u8 (blend_val alpha a b)) = \<lfloor>blend_val alpha a b\<rfloor>) \<and>
   (0 \<le> clipf (blend_val alpha a b) 0 255 \<and> clipf (blend_val alpha a b) 0 255 \<le> 255)"
proof -
  have blend: "0 \<le> f32 alpha \<and> f32 alpha \<le> 1 \<longrightarrow>
      0 \<le> blend_val alpha a b \<and> blend_val alpha a b \<le> 255 \<and>
      uint (to_u8 (blend_val alpha a b)) = \<lfloor>blend_val alpha a b\<rfloor>"
    using blend_val_range [of alpha a b] uint_to_u8 [of "blend_val alpha a b"] by blast
  have clip: "0 \<le> clipf (blend_val alpha a b) 0 255 \<and> clipf (blend_val alpha a b) 0 255 \<le> 255"
    by (simp add: clipf_def)
  show ?thesis
    using val_ranges(1) [of m v] val_ranges(2) [of m v] val_ranges(3) [of n v]
      val_ranges(4) [of factor v] blend clip
    by (simp add: in_range_any uint_to_u8)
qed

theorem stages_keep_range_witness:
  "in_range (apply_scanlines (image_new 2 6 (255, 255, 255)) (1 / 5)) \<and>
   (\<exists>out. add_bloom_simple lib0 (image_new 2 6 (255, 255, 255)) 2 (3 / 4) = Inr out \<and> in_range out) \<and>
   (\<exists>out. vignette lib0 (image_new 2 6 (255, 255, 255)) (1 / 3) = Inr out \<and> in_range out) \<and>
   (\<exists>out. barrel_distort (image_new 2 6 (255, 255, 255)) (2 / 25) = Inr out \<and> in_range out) \<and>
   (\<exists>out g'. tearing (image_new 2 6 (255, 255, 255)) 12 (1, 3) (rng_const 0) = Inr (out, g') \<and>
      in_range out) \<and>
   scan_val (1 / 2) 255 \<le> 255 \<and> noise_val 1 255 \<le> 255 \<and> flicker_val 2 255 \<le> 255 \<and>
   blend_val 1 255 255 \<le> 255"
proof -
  let ?img = "image_new 2 6 (255, 255, 255)"
  obtain o1 where o1: "add_bloom_simple lib0 ?img 2 (3 / 4) = Inr o1"
    using image_blend_ok [of ?img ?img "3 / 4"] by (auto simp: add_bloom_simple_def lib0_def)
  obtain o2 where o2: "vignette lib0 ?img (1 / 3) = Inr o2"
    using vignette_ok [of ?img lib0 "1 / 3"] by auto
  obtain o3 where o3: "barrel_distort ?img (2 / 25) = Inr o3"
    using barrel_distort_ok [of "2 / 25" ?img] by auto
  obtain o4 g4 where o4: "tearing ?img 12 (1, 3) (rng_const 0) = Inr (o4, g4)"
    using tearing_ok [of "(1, 3)" 12 ?img "rng_const 0"] by auto
  have one: "f32 1 = 1" by (simp add: fl_eval)
  show ?thesis
    using stages_keep_range [of ?img "1 / 5" lib0 2 "3 / 4" "1 / 3" "1 / 20" "rng_const 0"
        "2 / 25" 1 12 "(1, 3)" "rng_const 0" "19 / 20" "21 / 20" "1 / 2" 255 1 2 1 255 255]
      o1 o2 o3 o4 one
    by simp
qed

subsection \<open>Scanlines\<close>

lemma fl_round_abs_err:
  assumes "\<bar>x\<bar> < pow2 (k + 1)" and "emin \<le> k"
  shows "\<bar>fl_round p emin x - x\<bar> \<le> pow2 (k - int p)"
proof (cases "x = 0")
  case True
  then show ?thesis by simp
next
  case False
  then have "ilog2 \<bar>x\<bar> \<le> k" using assms(1) by (intro ilog2_le) simp_all
  then have "max (ilog2 \<bar>x\<bar>) emin - int p \<le> k - int p" using assms(2) by simp
  then have "pow2 (max (ilog2 \<bar>x\<bar>) emin - int p) \<le> pow2 (k - int p)" by (rule pow2_mono)
  with fl_round_err [OF False, of p emin] show ?thesis by linarith
qed

lemma f32_err_unit: "\<bar>x\<bar> \<le> 1 \<Longrightarrow> \<bar>f32 x - x\<bar> \<le> 1 / 16777216"
  using fl_round_abs_err [of x 0 "- 126" 24] by (simp add: f32_def pow2_def)

lemma f64_err_unit: "\<bar>x\<bar> \<le> 1 \<Longrightarrow> \<bar>f64 x - x\<bar> \<le> 1 / 9007199254740992"
  using fl_round_abs_err [of x 0 "- 1022" 53] by (simp add: f64_def pow2_def)

lemma f32_err_255: "\<bar>x\<bar> \<le> 255 \<Longrightarrow> \<bar>f32 x - x\<bar> \<le> 1 / 131072"
  using fl_round_abs_err [of x 7 "- 126" 24] by (simp add: f32_def pow2_def)

lemma f32_unit: "0 \<le> x \<Longrightarrow> x \<le> 1 \<Longrightarrow> 0 \<le> f32 x \<and> f32 x \<le> 1"
  using f32_bounds [of x 1] by simp

lemma f64_unit: "0 \<le> x \<Longrightarrow> x \<le> 1 \<Longrightarrow> 0 \<le> f64 x \<and> f64 x \<le> 1"
  using f64_bounds [of x 1] by simp

lemma u8_rat: "0 \<le> (of_nat (unat (v :: u8)) :: rat) \<and> (of_nat (unat v) :: rat) \<le> 255"
proof -
  have "(of_nat (unat v) :: rat) \<le> of_nat 255"
    using u8_le_255 [of v] by (simp only: of_nat_le_iff)
  also have "(of_nat 255 :: rat) = 255" by simp
  finally have "(of_nat (unat v) :: rat) \<le> 255" .
  moreover have "0 \<le> (of_nat (unat v) :: rat)" by (rule of_nat_0_le_iff)
  ultimately show ?thesis by (rule conjI [rotated])
qed

lemma to_f32_unit: "0 \<le> to_f32 v \<and> to_f32 v \<le> 1"
proof -
  define n :: rat where "n = of_nat (unat v)"
  have "0 \<le> n" "n \<le> 255" using u8_rat [of v] by (simp_all only: n_def)
  then have "0 \<le> n / 255" "n / 255 \<le> 1" by simp_all
  then have "0 \<le> f32 (n / 255) \<and> f32 (n / 255) \<le> 1" by (rule f32_unit)
  then show ?thesis by (simp only: to_f32_def n_def)
qed

lemma to_f32_err: "\<bar>to_f32 v - of_nat (unat v) / 255\<bar> \<le> 1 / 16777216"
proof -
  define n :: rat where "n = of_nat (unat v)"
  have "0 \<le> n" "n \<le> 255" using u8_rat [of v] by (simp_all only: n_def)
  then have "\<bar>n / 255\<bar> \<le> 1" by simp
  then have "\<bar>f32 (n / 255) - n / 255\<bar> \<le> 1 / 16777216" by (rule f32_err_unit)
  then show ?thesis by (simp only: to_f32_def n_def)
qed

text \<open>The value cast on an odd row is within \<open>10 ^ -4\<close> of \<open>(1 - opacity) * v\<close>.\<close>

lemma scan_val_odd:
  assumes "0 \<le> opacity" and "opacity \<le> 1"
  shows "\<bar>scan_val (f32 (f64 (1 - opacity))) v - (1 - opacity) * of_nat (unat v)\<bar> \<le> 1 / 10000"
proof -
  define n :: rat where "n = of_nat (unat v)"
  define z where "z = 1 - opacity"
  define z1 where "z1 = f64 z"
  define m where "m = f32 z1"
  define a where "a = to_f32 v"
  define b where "b = f32 (a * m)"
  define d where "d = f32 (b * 255)"
  have n: "0 \<le> n" "n \<le> 255"
    using u8_rat [of v] by (simp_all only: n_def)
  have z: "0 \<le> z" "z \<le> 1" using assms by (simp_all add: z_def)
  have z1: "0 \<le> z1" "z1 \<le> 1" unfolding z1_def using f64_unit [OF z] by simp_all
  have ez1: "\<bar>z1 - z\<bar> \<le> 1 / 9007199254740992" unfolding z1_def using z by (intro f64_err_unit) simp
  have m: "0 \<le> m" "m \<le> 1" unfolding m_def using f32_unit [OF z1] by simp_all
  have em: "\<bar>m - z1\<bar> \<le> 1 / 16777216" unfolding m_def using z1 by (intro f32_err_unit) simp
  have a: "0 \<le> a" "a \<le> 1" unfolding a_def using to_f32_unit [of v] by simp_all
  have ea: "\<bar>a - n / 255\<bar> \<le> 1 / 16777216" unfolding a_def n_def by (rule to_f32_err)
  have am: "0 \<le> a * m" "a * m \<le> 1"
    using a m by (simp_all add: mult_le_one)
  have b: "0 \<le> b" "b \<le> 1" unfolding b_def using f32_unit [OF am] by simp_all
  have eb: "\<bar>b - a * m\<bar> \<le> 1 / 16777216" unfolding b_def using am by (intro f32_err_unit) simp
  have ed: "\<bar>d - b * 255\<bar> \<le> 1 / 131072" unfolding d_def using b by (intro f32_err_255) simp
  define p1 where "p1 = a * (m - z)"
  define p2 where "p2 = (a - n / 255) * z"
  define q1 where "q1 = d - b * 255"
  define q2 where "q2 = b - a * m"
  define q3 where "q3 = a * m - n / 255 * z"
  have mz: "\<bar>m - z\<bar> \<le> 1 / 16777216 + 1 / 9007199254740992" using em ez1 by linarith
  have "\<bar>p1\<bar> = a * \<bar>m - z\<bar>" using a by (simp add: p1_def abs_mult)
  also have "\<dots> \<le> 1 * \<bar>m - z\<bar>" using a by (intro mult_right_mono) simp_all
  also have "\<dots> = \<bar>m - z\<bar>" by simp
  also note mz
  finally have e1: "\<bar>p1\<bar> \<le> 1 / 16777216 + 1 / 9007199254740992" .
  have "\<bar>p2\<bar> = \<bar>a - n / 255\<bar> * z" using z by (simp add: p2_def abs_mult)
  also have "\<dots> \<le> \<bar>a - n / 255\<bar> * 1" using z by (intro mult_left_mono) simp_all
  also have "\<dots> = \<bar>a - n / 255\<bar>" by simp
  also note ea
  finally have e2: "\<bar>p2\<bar> \<le> 1 / 16777216" .
  have "q3 = p1 + p2" by (simp add: q3_def p1_def p2_def algebra_simps)
  then have e3: "\<bar>q3\<bar> \<le> 2 / 16777216 + 1 / 9007199254740992"
    using e1 e2 by linarith
  have eq1: "\<bar>q1\<bar> \<le> 1 / 131072" using ed by (simp only: q1_def)
  have eq2: "\<bar>q2\<bar> \<le> 1 / 16777216" using eb by (simp only: q2_def)
  have "d - z * n = q1 + 255 * q2 + 255 * q3"
    by (simp add: q1_def q2_def q3_def algebra_simps)
  then have "\<bar>d - z * n\<bar> \<le> 1 / 10000"
    using eq1 eq2 e3 by linarith
  moreover have "scan_val m v = d"
    using b by (simp add: scan_val_def clip_scale_def clipf_def d_def b_def a_def)
  ultimately show ?thesis by (simp add: m_def z1_def z_def n_def)
qed

lemma scan_chan_odd:
  assumes "0 \<le> opacity" and "opacity \<le> 1" and "odd y"
  shows "(1 - opacity) * of_nat (unat v) - 10001 / 10000 < of_nat (unat (scan_chan opacity y v)) \<and>
         of_nat (unat (scan_chan opacity y v)) \<le> (1 - opacity) * of_nat (unat v) + 1 / 10000"
proof -
  define d where "d = scan_val (f32 (f64 (1 - opacity))) v"
  have r: "0 \<le> d" "d \<le> 255" using val_ranges(1) by (simp_all add: d_def)
  have "uint (scan_chan opacity y v) = \<lfloor>d\<rfloor>"
    using assms(3) uint_to_u8 [OF r] by (simp add: scan_chan_def scan_mask_def d_def)
  then have "int (unat (scan_chan opacity y v)) = \<lfloor>d\<rfloor>" by simp
  then have "(of_int (int (unat (scan_chan opacity y v))) :: rat) = of_int \<lfloor>d\<rfloor>" by (simp only:)
  then have u: "(of_nat (unat (scan_chan opacity y v)) :: rat) = of_int \<lfloor>d\<rfloor>" by simp
  have "\<bar>d - (1 - opacity) * of_nat (unat v)\<bar> \<le> 1 / 10000"
    unfolding d_def using assms(1,2) by (rule scan_val_odd)
  moreover have "of_int \<lfloor>d\<rfloor> \<le> d" "d - 1 < of_int \<lfloor>d\<rfloor>" by linarith+
  ultimately show ?thesis unfolding u by linarith
qed

lemma f32_roundtrip_0: "\<forall>n < 32. f32_roundtrip (0 + n) = int (0 + n)"
  unfolding all_less_unfold by (simp add: f32_roundtrip_def fl_eval)

lemma f32_roundtrip_32: "\<forall>n < 32. f32_roundtrip (32 + n) = int (32 + n)"
  unfolding all_less_unfold by (simp add: f32_roundtrip_def fl_eval)

lemma f32_roundtrip_64: "\<forall>n < 32. f32_roundtrip (64 + n) = int (64 + n)"
  unfolding all_less_unfold by (simp add: f32_roundtrip_def fl_eval)

lemma f32_roundtrip_96: "\<forall>n < 32. f32_roundtrip (96 + n) = int (96 + n)"
  unfolding all_less_unfold by (simp add: f32_roundtrip_def fl_eval)

lemma f32_roundtrip_128: "\<forall>n < 32. f32_roundtrip (128 + n) = int (128 + n)"
  unfolding all_less_unfold by (simp add: f32_roundtrip_def fl_eval)

lemma f32_roundtrip_160: "\<forall>n < 32. f32_roundtrip (160 + n) = int (160 + n)"
  unfolding all_less_unfold by (simp add: f32_roundtrip_def fl_eval)

lemma f32_roundtrip_192: "\<forall>n < 32. f32_roundtrip (192 + n) = int (192 + n)"
  unfolding all_less_unfold by (simp add: f32_roundtrip_def fl_eval)

lemma f32_roundtrip_224: "\<forall>n < 32. f32_roundtrip (224 + n) = int (224 + n)"
  unfolding all_less_unfold by (simp add: f32_roundtrip_def fl_eval)


lemma f32_roundtrip_chunk:
  "\<forall>i < 32. f32_roundtrip (k + i) = int (k + i) \<Longrightarrow> k \<le> n \<Longrightarrow> n < k + 32
    \<Longrightarrow> f32_roundtrip n = int n"
  using spec [of "\<lambda>i. i < 32 \<longrightarrow> f32_roundtrip (k + i) = int (k + i)" "n - k"] by simp

lemma f32_roundtrip_id:
  assumes "n < 256"
  shows "f32_roundtrip n = int n"
proof -
  consider
      "0 \<le> n" "n < 0 + 32" |
      "32 \<le> n" "n < 32 + 32" |
      "64 \<le> n" "n < 64 + 32" |
      "96 \<le> n" "n < 96 + 32" |
      "128 \<le> n" "n < 128 + 32" |
      "160 \<le> n" "n < 160 + 32" |
      "192 \<le> n" "n < 192 + 32" |
      "224 \<le> n" "n < 224 + 32"
    using assms by linarith
  then show ?thesis
  proof cases
  
  case 1
  then show ?thesis using f32_roundtrip_0 by (rule f32_roundtrip_chunk [rotated])
  next
  case 2
  then show ?thesis using f32_roundtrip_32 by (rule f32_roundtrip_chunk [rotated])
  next
  case 3
  then show ?thesis using f32_roundtrip_64 by (rule f32_roundtrip_chunk [rotated])
  next
  case 4
  then show ?thesis using f32_roundtrip_96 by (rule f32_roundtrip_chunk [rotated])
  next
  case 5
  then show ?thesis using f32_roundtrip_128 by (rule f32_roundtrip_chunk [rotated])
  next
  case 6
  then show ?thesis using f32_roundtrip_160 by (rule f32_roundtrip_chunk [rotated])
  next
  case 7
  then show ?thesis using f32_roundtrip_192 by (rule f32_roundtrip_chunk [rotated])
  next
  case 8
  then show ?thesis using f32_roundtrip_224 by (rule f32_roundtrip_chunk [rotated])
  qed
qed

lemma scan_chan_even:
  assumes "even y"
  shows "scan_chan opacity y v = v"
proof -
  have "unat v < 256" using u8_le_255 [of v] by simp
  then have "f32_roundtrip (unat v) = int (unat v)" by (rule f32_roundtrip_id)
  then have "to_u8 (scan_val 1 v) = word_of_int (int (unat v))"
    by (simp only: to_u8_def scan_val_def to_f32_def f32_roundtrip_def)
  then show ?thesis using assms by (simp add: scan_chan_def scan_mask_def)
qed

lemma apply_scanlines_row:
  "y < length img \<Longrightarrow> apply_scanlines img opacity ! y = map (px_map (scan_chan opacity y)) (img ! y)"
  by (simp add: apply_scanlines_def)

lemma px_map_even: "even y \<Longrightarrow> px_map (scan_chan opacity y) p = p"
  by (simp add: px_map_def scan_chan_even red_def green_def blue_def)

lemma row_mean_replicate:
  assumes "0 < w"
  shows "row_mean (replicate w p) =
    (of_nat (unat (red p)) + of_nat (unat (green p)) + of_nat (unat (blue p))) / 3"
proof -
  define s where "s = unat (red p) + unat (green p) + unat (blue p)"
  have "sum_list (map (\<lambda>p. unat (red p) + unat (green p) + unat (blue p)) (replicate w p)) = w * s"
    by (simp add: sum_list_replicate s_def)
  then have "row_mean (replicate w p) = of_nat (w * s) / of_nat (3 * w)"
    by (simp only: row_mean_def length_replicate)
  also have "\<dots> = of_nat s / 3" using assms by simp
  also have "of_nat s = (of_nat (unat (red p)) + of_nat (unat (green p)) + of_nat (unat (blue p)) :: rat)"
    by (simp only: s_def of_nat_add)
  finally show ?thesis .
qed

text \<open>
  C5, as stated, fails: the output is an array of integers. On a white frame with
  opacity 1/2 the odd row is 127, the even row 255, and half of 255 is 127.5.
\<close>

theorem scanlines_odd_row_truncated:
  "row_mean (apply_scanlines (image_new 1 2 (255, 255, 255)) (1 / 2) ! 1) \<noteq>
   (1 - 1 / 2) * row_mean (apply_scanlines (image_new 1 2 (255, 255, 255)) (1 / 2) ! 0)"
proof -
  have c: "scan_chan (1 / 2) (Suc 0) 255 = 127"
    by (simp add: scan_chan_def scan_mask_def scan_val_def to_f32_def to_u8_def fl_eval)
  have img: "image_new 1 2 (255, 255, 255) = [[(255, 255, 255)], [(255, 255, 255)]]"
    by (simp add: image_new_def numeral_2_eq_2)
  have r1: "apply_scanlines (image_new 1 2 (255, 255, 255)) (1 / 2) ! 1 = replicate 1 (127, 127, 127)"
    unfolding img by (simp add: apply_scanlines_row px_map_def c red_def green_def blue_def)
  have r0: "apply_scanlines (image_new 1 2 (255, 255, 255)) (1 / 2) ! 0 = replicate 1 (255, 255, 255)"
    unfolding img by (simp add: apply_scanlines_row px_map_even)
  show ?thesis
    unfolding r0 r1 by (simp add: row_mean_def red_def green_def blue_def)
qed

text \<open>
  C5, amended. On a frame of one colour and for an opacity between 0 and 1,
  \<open>apply_scanlines\<close> leaves every even row as it is; every channel of an odd row is
  \<open>(1 - opacity)\<close> times its value, computed in float32 and truncated to an integer.
  So the mean of an odd row is \<open>(1 - opacity)\<close> times the mean of an even row up to
  the truncation: not above it by more than \<open>10 ^ -4\<close>, and less than \<open>1 + 10 ^ -4\<close> below.
\<close>

theorem scanlines_uniform:
  assumes "0 \<le> opacity" and "opacity \<le> 1" and "0 < w" and "y < h"
  shows "(even y \<longrightarrow>
            apply_scanlines (image_new w h p) opacity ! y = image_new w h p ! y) \<and>
         (odd y \<longrightarrow>
            (1 - opacity) * row_mean (image_new w h p ! y) - 10001 / 10000
              < row_mean (apply_scanlines (image_new w h p) opacity ! y) \<and>
            row_mean (apply_scanlines (image_new w h p) opacity ! y)
              \<le> (1 - opacity) * row_mean (image_new w h p ! y) + 1 / 10000)"
proof -
  have row: "image_new w h p ! y = replicate w p"
    using assms(4) by (simp add: image_new_def)
  have out: "apply_scanlines (image_new w h p) opacity ! y = replicate w (px_map (scan_chan opacity y) p)"
    using assms(4) by (simp add: apply_scanlines_row image_new_def)
  have ev: "even y \<longrightarrow> apply_scanlines (image_new w h p) opacity ! y = image_new w h p ! y"
    by (simp add: out row px_map_even)
  have od: "(1 - opacity) * row_mean (image_new w h p ! y) - 10001 / 10000
              < row_mean (apply_scanlines (image_new w h p) opacity ! y) \<and>
            row_mean (apply_scanlines (image_new w h p) opacity ! y)
              \<le> (1 - opacity) * row_mean (image_new w h p ! y) + 1 / 10000" if "odd y"
  proof -
    define z where "z = 1 - opacity"
    define r g b :: rat where "r = of_nat (unat (red p))" and "g = of_nat (unat (green p))"
      and "b = of_nat (unat (blue p))"
    define r' g' b' :: rat where "r' = of_nat (unat (scan_chan opacity y (red p)))"
      and "g' = of_nat (unat (scan_chan opacity y (green p)))"
      and "b' = of_nat (unat (scan_chan opacity y (blue p)))"
    define zr zg zb where "zr = z * r" and "zg = z * g" and "zb = z * b"
    have cr: "zr - 10001 / 10000 < r' \<and> r' \<le> zr + 1 / 10000"
      unfolding zr_def z_def r_def r'_def using assms(1,2) that by (rule scan_chan_odd)
    have cg: "zg - 10001 / 10000 < g' \<and> g' \<le> zg + 1 / 10000"
      unfolding zg_def z_def g_def g'_def using assms(1,2) that by (rule scan_chan_odd)
    have cb: "zb - 10001 / 10000 < b' \<and> b' \<le> zb + 1 / 10000"
      unfolding zb_def z_def b_def b'_def using assms(1,2) that by (rule scan_chan_odd)
    have m_in: "row_mean (image_new w h p ! y) = (r + g + b) / 3"
      unfolding row r_def g_def b_def using assms(3) by (rule row_mean_replicate)
    have "row_mean (apply_scanlines (image_new w h p) opacity ! y) =
        (of_nat (unat (red (px_map (scan_chan opacity y) p)))
          + of_nat (unat (green (px_map (scan_chan opacity y) p)))
          + of_nat (unat (blue (px_map (scan_chan opacity y) p)))) / 3"
      unfolding out using assms(3) by (rule row_mean_replicate)
    then have m_out: "row_mean (apply_scanlines (image_new w h p) opacity ! y) = (r' + g' + b') / 3"
      by (simp add: px_map_def red_def green_def blue_def r'_def g'_def b'_def)
    have eq: "z * ((r + g + b) / 3) = (zr + zg + zb) / 3"
      by (simp add: zr_def zg_def zb_def algebra_simps)
    have lo: "zr - 10001 / 10000 < r'" "zg - 10001 / 10000 < g'" "zb - 10001 / 10000 < b'"
      and hi: "r' \<le> zr + 1 / 10000" "g' \<le> zg + 1 / 10000" "b' \<le> zb + 1 / 10000"
      using cr cg cb by simp_all
    have "(zr + zg + zb) / 3 - 10001 / 10000 < (r' + g' + b') / 3"
      using lo by (simp add: field_simps)
    moreover have "(r' + g' + b') / 3 \<le> (zr + zg + zb) / 3 + 1 / 10000"
      using hi by (simp add: field_simps)
    ultimately show ?thesis
      unfolding m_in m_out z_def [symmetric] eq by (rule conjI)
  qed
  from ev od show ?thesis by blast
qed

theorem scanlines_uniform_witness:
  "apply_scanlines (image_new 1 2 (255, 255, 255)) (1 / 2) ! 0 = image_new 1 2 (255, 255, 255) ! 0 \<and>
   (1 - 1 / 2) * row_mean (image_new 1 2 (255, 255, 255) ! 1) - 10001 / 10000
     < row_mean (apply_scanlines (image_new 1 2 (255, 255, 255)) (1 / 2) ! 1) \<and>
   row_mean (apply_scanlines (image_new 1 2 (255, 255, 255)) (1 / 2) ! 1)
     \<le> (1 - 1 / 2) * row_mean (image_new 1 2 (255, 255, 255) ! 1) + 1 / 10000"
  using scanlines_uniform [of "1 / 2" 1 0 2 "(255, 255, 255)"]
    scanlines_uniform [of "1 / 2" 1 1 2 "(255, 255, 255)"]
  by simp

end
